theory Spec2Isabelle
  imports Complex_Main "HOL-Library.Multiset"
begin

section \<open>Data model\<close>

text \<open>
  The types \<open>Pothole\<close> and \<open>Ticket\<close> of the dashboard page, the map component and the
  tickets panel. A finite JavaScript number is a real number. The scores are only
  subtracted to compare them, and the sign of a difference of two finite doubles is the sign
  of the exact difference; the distance of two stops is computed with rounding, which is
  modelled below. \<open>created_at\<close> holds the value of
  \<^verbatim>\<open>new Date(t.created_at).getTime()\<close>, the only way the program reads the field when it
  orders tickets.
\<close>

datatype severity = LOW | MEDIUM | HIGH

datatype status = ACTIVE | COMPLETE

record pothole =
  latitude :: real
  longitude :: real
  severity :: severity
  image_url :: "string option"
  description :: "string option"
  severity_score :: "real option"

record ticket =
  id_t :: string
  status :: status
  created_at :: int
  pothole_metadata :: pothole

datatype console_entry = Log string | Warn string | Error string

section \<open>DashboardPage: the canonical ticket list\<close>

text \<open>
  The state of the page: the \<open>tickets\<close> state variable, the console, and the number of
  read queries sent to the ticket store.
\<close>

record dashboard =
  tickets :: "ticket list"
  console :: "console_entry list"
  selects :: nat

text \<open>The answer of the ticket store to a read query: \<^verbatim>\<open>{ data, error }\<close>.\<close>

record query_result =
  data :: "ticket list option"
  error :: "string option"

definition fetchTickets :: "query_result \<Rightarrow> dashboard \<Rightarrow> dashboard" where
  "fetchTickets res s =
     (let s1 = s\<lparr>console := console s @ [Log ''Refetching tickets...''],
                  selects := Suc (selects s)\<rparr>
      in case error res of
           Some e \<Rightarrow> s1\<lparr>console := console s1 @ [Error ''Error fetching tickets:'']\<rparr>
         | None \<Rightarrow> (case data res of Some d \<Rightarrow> s1\<lparr>tickets := d\<rparr> | None \<Rightarrow> s1))"

datatype event_type = INSERT | UPDATE | DELETE

text \<open>A change-feed payload: its \<open>eventType\<close> and \<^verbatim>\<open>payload.old.id\<close>.\<close>

record payload =
  eventType :: event_type
  old_id :: string

text \<open>
  The subscription callback. \<open>res\<close> is what the ticket store answers if the callback
  sends a read query.
\<close>

definition onChangeEvent :: "payload \<Rightarrow> query_result \<Rightarrow> dashboard \<Rightarrow> dashboard" where
  "onChangeEvent p res s =
     (let s1 = s\<lparr>console := console s @ [Log ''Supabase Realtime event:'']\<rparr>
      in if eventType p = INSERT \<or> eventType p = UPDATE then fetchTickets res s1
         else if eventType p = DELETE
         then s1\<lparr>tickets := filter (\<lambda>t. id_t t \<noteq> old_id p) (tickets s1)\<rparr>
         else s1)"

definition handleUpdate :: "string \<Rightarrow> status \<Rightarrow> dashboard \<Rightarrow> dashboard" where
  "handleUpdate i st s =
     s\<lparr>tickets := map (\<lambda>t. if id_t t = i then t\<lparr>status := st\<rparr> else t) (tickets s)\<rparr>"

text \<open>
  \<open>updateStatus\<close> of the tickets panel: \<open>err\<close> is the \<open>error\<close> field of the remote
  update's answer, \<open>onUpdate\<close> the optional callback of the panel.
\<close>

definition updateStatus ::
  "(string \<Rightarrow> status \<Rightarrow> dashboard \<Rightarrow> dashboard) option \<Rightarrow> string \<Rightarrow> status \<Rightarrow>
   string option \<Rightarrow> dashboard \<Rightarrow> dashboard" where
  "updateStatus onUpdate i newStatus err s =
     (if err = None then (case onUpdate of Some f \<Rightarrow> f i newStatus s | None \<Rightarrow> s) else s)"

text \<open>The page passes \<open>handleUpdate\<close> to the panel.\<close>

definition page_updateStatus :: "string \<Rightarrow> status \<Rightarrow> string option \<Rightarrow> dashboard \<Rightarrow> dashboard" where
  "page_updateStatus = updateStatus (Some handleUpdate)"

section \<open>Orderings of the ticket list\<close>

text \<open>
  \<^verbatim>\<open>Array.prototype.sort\<close> with a comparator: the language requires the sort to be
  stable, and an element \<open>a\<close> stays before \<open>b\<close> unless the comparator says otherwise.
  For a consistent comparator this fixes the result; it is the stable insertion sort.
\<close>

fun insert_cmp :: "('a \<Rightarrow> 'a \<Rightarrow> 'b::{zero,linorder}) \<Rightarrow> 'a \<Rightarrow> 'a list \<Rightarrow> 'a list" where
  "insert_cmp cmp x [] = [x]"
| "insert_cmp cmp x (y # ys) =
     (if cmp x y \<le> 0 then x # y # ys else y # insert_cmp cmp x ys)"

definition sort_cmp :: "('a \<Rightarrow> 'a \<Rightarrow> 'b::{zero,linorder}) \<Rightarrow> 'a list \<Rightarrow> 'a list" where
  "sort_cmp cmp xs = foldr (insert_cmp cmp) xs []"

fun severityWeights :: "severity \<Rightarrow> int" where
  "severityWeights HIGH = 3"
| "severityWeights MEDIUM = 2"
| "severityWeights LOW = 1"

text \<open>The comparator of \<open>activeTickets\<close>: \<^verbatim>\<open>severityDiff || (time of b - time of a)\<close>.\<close>

definition activeCompare :: "ticket \<Rightarrow> ticket \<Rightarrow> int" where
  "activeCompare a b =
     (let severityDiff = severityWeights (severity (pothole_metadata b))
                       - severityWeights (severity (pothole_metadata a))
      in if severityDiff \<noteq> 0 then severityDiff else created_at b - created_at a)"

definition activeTickets :: "ticket list \<Rightarrow> ticket list" where
  "activeTickets ts = sort_cmp activeCompare (filter (\<lambda>t. status t = ACTIVE) ts)"

text \<open>\<^verbatim>\<open>p.severity_score ?? 0\<close>\<close>

definition score :: "ticket \<Rightarrow> real" where
  "score t = (case severity_score (pothole_metadata t) of None \<Rightarrow> 0 | Some v \<Rightarrow> v)"

definition panelCompare :: "ticket \<Rightarrow> ticket \<Rightarrow> real" where
  "panelCompare a b = score b - score a"

text \<open>The list \<open>sorted\<close> of the tickets panel.\<close>

definition sorted_panel :: "ticket list \<Rightarrow> ticket list" where
  "sorted_panel ts = sort_cmp panelCompare ts"

section \<open>RouteLine: ordering the stops\<close>

text \<open>A coordinate is the two-element array \<^verbatim>\<open>[longitude, latitude]\<close>.\<close>

type_synonym coord = "real \<times> real"

text \<open>
  What the code can throw: a TypeError, the errors of a request that fails or answers with
  a body that is not JSON, and an \<open>Error\<close> object with its message.
\<close>

datatype js_error = TypeError | SyntaxError | NetworkFailure | RouteError string

definition coords_of :: "ticket list \<Rightarrow> coord list" where
  "coords_of ts = map (\<lambda>t. (longitude (pothole_metadata t), latitude (pothole_metadata t))) ts"

subsection \<open>Double-precision arithmetic\<close>

text \<open>
  The distance is computed in IEEE 754 double precision. A finite double is a real number;
  a result that is not finite is \<open>None\<close>. In the expression modelled here the operands of
  the subtractions are finite and nothing else can produce a NaN, so \<open>None\<close> is always
  \<open>Infinity\<close>.

  \<open>round_double\<close> is rounding to the nearest double, ties to the even significand: a
  number of magnitude at least \<open>2 powi e\<close> and less than \<open>2 powi (e + 1)\<close> is rounded to
  a multiple of \<open>2 powi (e - 52)\<close>, below the normal range to a multiple of
  \<open>2 powi (- 1074)\<close>, and a result of magnitude \<open>2 powi 1024\<close> or more is \<open>Infinity\<close>.
\<close>

definition round_half_even :: "real \<Rightarrow> int" where
  "round_half_even y =
     (let f = \<lfloor>y\<rfloor>
      in if y - of_int f < 1 / 2 then f
         else if 1 / 2 < y - of_int f then f + 1
         else if even f then f else f + 1)"

definition round_double :: "real \<Rightarrow> real option" where
  "round_double x =
     (if x = 0 then Some 0
      else (let e = max \<lfloor>log 2 \<bar>x\<bar>\<rfloor> (- 1022);
                q = 2 powi (e - 52);
                r = of_int (round_half_even (x / q)) * q
            in if \<bar>r\<bar> < 2 powi 1024 then Some r else None))"

text \<open>
  \<open>a - b\<close> on finite numbers, \<^verbatim>\<open>Math.pow(x, 2)\<close>, \<open>x + y\<close> and \<^verbatim>\<open>Math.sqrt(x)\<close>. The
  square and the square root are taken to be correctly rounded, as the engines compute
  them; both are exact on the numbers of the examples.
\<close>

definition number_sub :: "real \<Rightarrow> real \<Rightarrow> real option" where
  "number_sub a b = round_double (a - b)"

definition Math_pow2 :: "real option \<Rightarrow> real option" where
  "Math_pow2 x = (case x of None \<Rightarrow> None | Some v \<Rightarrow> round_double (v * v))"

definition number_add :: "real option \<Rightarrow> real option \<Rightarrow> real option" where
  "number_add x y =
     (case x of None \<Rightarrow> None
      | Some v \<Rightarrow> (case y of None \<Rightarrow> None | Some w \<Rightarrow> round_double (v + w)))"

definition Math_sqrt :: "real option \<Rightarrow> real option" where
  "Math_sqrt x = (case x of None \<Rightarrow> None | Some v \<Rightarrow> round_double (sqrt v))"

subsection \<open>The nearest-neighbour block\<close>

text \<open>\<^verbatim>\<open>Math.sqrt(Math.pow(coord[0] - last[0], 2) + Math.pow(coord[1] - last[1], 2))\<close>\<close>

definition distance :: "coord \<Rightarrow> coord \<Rightarrow> real option" where
  "distance c l =
     Math_sqrt (number_add (Math_pow2 (number_sub (fst c) (fst l)))
                           (Math_pow2 (number_sub (snd c) (snd l))))"

text \<open>
  \<open>dist < minDist\<close> on numbers that are finite or \<open>Infinity\<close>; \<open>minDist\<close> starts as
  \<open>Infinity\<close>.
\<close>

fun below :: "real option \<Rightarrow> real option \<Rightarrow> bool" where
  "below (Some d) (Some m) = (d < m)"
| "below (Some d) None = True"
| "below None m = False"

text \<open>
  The \<open>forEach\<close> over \<open>unvisited\<close>: \<open>idx\<close> is the index of the element visited next,
  the pair is \<open>(nearestIdx, minDist)\<close>.
\<close>

fun forEach_scan :: "coord \<Rightarrow> coord list \<Rightarrow> nat \<Rightarrow> nat \<times> real option \<Rightarrow> nat \<times> real option" where
  "forEach_scan l [] idx acc = acc"
| "forEach_scan l (c # cs) idx (nearestIdx, minDist) =
     (let d = distance c l
      in if below d minDist then forEach_scan l cs (Suc idx) (idx, d)
         else forEach_scan l cs (Suc idx) (nearestIdx, minDist))"

definition nearestIdx_of :: "coord \<Rightarrow> coord list \<Rightarrow> nat" where
  "nearestIdx_of l unvisited = fst (forEach_scan l unvisited 0 (0, None))"

text \<open>
  \<^verbatim>\<open>unvisited.splice(nearestIdx, 1)[0]\<close>: the element removed and the array left. Out of
  range nothing is removed and the element is \<open>undefined\<close> (\<open>None\<close>).
\<close>

definition splice1 :: "nat \<Rightarrow> 'a list \<Rightarrow> ('a \<times> 'a list) option" where
  "splice1 i xs = (if i < length xs then Some (xs ! i, take i xs @ drop (Suc i) xs) else None)"

text \<open>
  The \<open>while\<close> loop. Were \<open>undefined\<close> pushed, the next iteration would read
  \<^verbatim>\<open>last[0]\<close> of it and throw a TypeError.
\<close>

function nn_loop :: "coord list \<Rightarrow> coord list \<Rightarrow> js_error + coord list" where
  "nn_loop orderedCoords [] = Inr orderedCoords"
| "nn_loop orderedCoords (c # cs) =
     (case splice1 (nearestIdx_of (last orderedCoords) (c # cs)) (c # cs) of
        None \<Rightarrow> Inl TypeError
      | Some (p, rest) \<Rightarrow> nn_loop (orderedCoords @ [p]) rest)"
  by pat_completeness auto
termination
  by (relation "measure (\<lambda>(ord, u). length u)") (auto simp: splice1_def split: if_splits)

text \<open>
  The nearest-neighbour block. On an empty array \<^verbatim>\<open>unvisited.shift()\<close> is
  \<open>undefined\<close>, and building the request string from it throws a TypeError.
\<close>

definition orderRoute :: "coord list \<Rightarrow> js_error + coord list" where
  "orderRoute coords =
     (case coords of [] \<Rightarrow> Inl TypeError | first # unvisited \<Rightarrow> nn_loop [first] unvisited)"

section \<open>RouteLine: the route visual on the map\<close>

text \<open>
  Leaflet layers are objects; \<open>layer_id\<close> is the identity of the object. A polyline
  carries its points, \<^verbatim>\<open>[latitude, longitude]\<close> pairs, and its options; a decorator the
  polyline it decorates and the colour of its arrows.
\<close>

record polyline_options =
  color :: string
  weight :: nat
  opacity :: real
  dashArray :: "string option"

datatype layer =
    Polyline (layer_id: nat) (latlngs: "coord list") (options: polyline_options)
  | Decorator (layer_id: nat) (decorated: nat) (arrow_color: string)

text \<open>
  The state one \<open>RouteLine\<close> instance works on: the layers it has put on the map, its
  three refs, the \<open>isCalculatingRoutes\<close> state of the parent (written through
  \<open>onLoadingChange\<close>), the points of the last \<open>fitBounds\<close> of a route, the coordinate
  lists of the requests sent to the routing service, in the order of the request string,
  and the next fresh object identity. Console output is left out. Of the calls into
  Leaflet, \<open>fitBounds\<close> throws on bounds that are not valid, which the bounds of a
  polyline without points are; \<open>L.polyline\<close>, \<open>addTo\<close> and \<open>removeLayer\<close> do not throw on
  finite coordinates.

  React runs the effect after a render in which the tickets or the mode have changed, and
  before that the cleanup function that the previous run of the effect returned, if it
  returned one. The functions below are the pieces that run without interruption: a run of
  the effect up to the first \<open>await\<close>, the cleanup, the rest of \<open>fetchOptimalRoute\<close>
  once the request has ended, and the timer. A run of the component is a composition of
  them; a piece takes what its closure has captured (the coordinates, the mode) as
  arguments.
\<close>

record route_line =
  map_layers :: "layer list"
  routePolylineRef :: "layer option"
  decoratorRef :: "layer option"
  isCalculatingRef :: bool
  isCalculatingRoutes :: bool
  fitted :: "coord list option"
  requests :: "coord list list"
  next_id :: nat

definition initial :: route_line where
  "initial = \<lparr>map_layers = [], routePolylineRef = None, decoratorRef = None,
     isCalculatingRef = False, isCalculatingRoutes = False, fitted = None,
     requests = [], next_id = 0\<rparr>"

text \<open>The answer of the routing service, as far as the component reads it.\<close>

record route =
  geometry :: "coord list option"

record osrm_data =
  code :: string
  routes :: "route list option"
  message :: "string option"

text \<open>
  How the request ends: \<open>fetch\<close> rejects, the body is not JSON, or a JSON body arrives.
\<close>

datatype fetch_outcome = NetworkError | BadJson | Response osrm_data

definition stopLoading :: "route_line \<Rightarrow> route_line" where
  "stopLoading s = s\<lparr>isCalculatingRef := False, isCalculatingRoutes := False\<rparr>"

definition removeLayer :: "layer option \<Rightarrow> route_line \<Rightarrow> route_line" where
  "removeLayer r s =
     (case r of None \<Rightarrow> s | Some l \<Rightarrow> s\<lparr>map_layers := removeAll l (map_layers s)\<rparr>)"

text \<open>
  \<open>clearRoute\<close> (first variant) and \<open>clearRouteLayers\<close> (second variant): the layer a
  ref points to leaves the map if it is there, and the ref becomes \<open>null\<close>.
\<close>

definition clearRoute :: "route_line \<Rightarrow> route_line" where
  "clearRoute s =
     (let s1 = (removeLayer (routePolylineRef s) s)\<lparr>routePolylineRef := None\<rparr>
      in (removeLayer (decoratorRef s1) s1)\<lparr>decoratorRef := None\<rparr>)"

definition clearRouteLayers :: "route_line \<Rightarrow> route_line" where
  "clearRouteLayers s =
     (let s1 = (case routePolylineRef s of
                  Some l \<Rightarrow> if l \<in> set (map_layers s) then removeLayer (Some l) s else s
                | None \<Rightarrow> s)\<lparr>routePolylineRef := None\<rparr>
      in (case decoratorRef s1 of
            Some l \<Rightarrow> if l \<in> set (map_layers s1) then removeLayer (Some l) s1 else s1
          | None \<Rightarrow> s1)\<lparr>decoratorRef := None\<rparr>)"

definition route_color :: "bool \<Rightarrow> string" where
  "route_color optimizeRoute = (if optimizeRoute then ''#10b981'' else ''#2563eb'')"

definition route_options :: "bool \<Rightarrow> polyline_options" where
  "route_options optimizeRoute =
     \<lparr>color = route_color optimizeRoute, weight = 5, opacity = 75 / 100, dashArray = None\<rparr>"

definition fallback_options :: polyline_options where
  "fallback_options = \<lparr>color = ''#4b5563'', weight = 4, opacity = 7 / 10, dashArray = Some ''6 8''\<rparr>"

text \<open>\<^verbatim>\<open>(c) => [c[1], c[0]]\<close>\<close>

definition swap_pair :: "coord \<Rightarrow> coord" where
  "swap_pair c = (snd c, fst c)"

text \<open>\<^verbatim>\<open>routePolylineRef.current = L.polyline(points, options).addTo(map)\<close>\<close>

definition addPolyline :: "coord list \<Rightarrow> polyline_options \<Rightarrow> route_line \<Rightarrow> route_line" where
  "addPolyline pts opts s =
     (let pl = Polyline (next_id s) pts opts
      in s\<lparr>map_layers := map_layers s @ [pl], routePolylineRef := Some pl,
           next_id := Suc (next_id s)\<rparr>)"

text \<open>
  The decorator is added when the plugin is loaded (\<open>plugin\<close>, the module constant
  \<open>PolylineDecorator\<close>); the polyline was stored in the ref just before.
\<close>

definition addDecorator :: "bool \<Rightarrow> bool \<Rightarrow> route_line \<Rightarrow> route_line" where
  "addDecorator plugin optimizeRoute s =
     (case routePolylineRef s of
        Some pl \<Rightarrow>
          if plugin
          then (let d = Decorator (next_id s) (layer_id pl) (route_color optimizeRoute)
                in s\<lparr>map_layers := map_layers s @ [d], decoratorRef := Some d,
                     next_id := Suc (next_id s)\<rparr>)
          else s
      | None \<Rightarrow> s)"

text \<open>
  How a piece of code ends: it throws, \<open>Inl\<close> with the error and the state reached by
  then, or it completes, \<open>Inr\<close> with the state.
\<close>

type_synonym completion = "js_error \<times> route_line + route_line"

definition final_state :: "completion \<Rightarrow> route_line" where
  "final_state r = (case r of Inl (e, s) \<Rightarrow> s | Inr s \<Rightarrow> s)"

text \<open>\<^verbatim>\<open>map.fitBounds(routePolylineRef.current.getBounds(), ...)\<close>\<close>

definition fitBounds :: "coord list \<Rightarrow> route_line \<Rightarrow> completion" where
  "fitBounds pts s =
     (if pts = [] then Inl (RouteError ''Bounds are not valid.'', s)
      else Inr (s\<lparr>fitted := Some pts\<rparr>))"

text \<open>The drawing part of the success branch, the same in both variants.\<close>

definition drawRoute :: "bool \<Rightarrow> bool \<Rightarrow> coord list \<Rightarrow> route_line \<Rightarrow> completion" where
  "drawRoute plugin optimizeRoute routeCoords s =
     (let s1 = addPolyline routeCoords (route_options optimizeRoute) s;
          s2 = addDecorator plugin optimizeRoute s1
      in case fitBounds routeCoords s2 of
           Inl thrown \<Rightarrow> Inl thrown
         | Inr s3 \<Rightarrow> Inr (stopLoading s3))"

text \<open>The fallback of the \<open>catch\<close> block: straight lines through \<open>coords\<close>.\<close>

definition drawFallback :: "coord list \<Rightarrow> route_line \<Rightarrow> route_line" where
  "drawFallback coords s = stopLoading (addPolyline (map swap_pair coords) fallback_options s)"

text \<open>
  The error thrown when the answer is not usable; \<^verbatim>\<open>data.message || data.code\<close> takes
  the code when the message is missing or empty.
\<close>

definition route_failed :: "osrm_data \<Rightarrow> js_error" where
  "route_failed d =
     RouteError (''Route optimization failed: '' @
       (case message d of Some m \<Rightarrow> (if m = [] then code d else m) | None \<Rightarrow> code d))"

text \<open>\<^verbatim>\<open>data.routes?.[0]\<close>\<close>

definition first_route :: "osrm_data \<Rightarrow> route option" where
  "first_route d = (case routes d of Some (r # rs) \<Rightarrow> Some r | _ \<Rightarrow> None)"

text \<open>
  \<^verbatim>\<open>route.geometry.coordinates.map((coord) => [coord[1], coord[0]])\<close>, a TypeError when
  the route has no geometry.
\<close>

definition read_geometry :: "route \<Rightarrow> js_error + coord list" where
  "read_geometry r = (case geometry r of None \<Rightarrow> Inl TypeError | Some cs \<Rightarrow> Inr (map swap_pair cs))"

subsection \<open>First variant\<close>

definition catch1 :: "coord list \<Rightarrow> route_line \<Rightarrow> completion" where
  "catch1 coords s = Inr (drawFallback coords s)"

text \<open>
  \<open>fetchOptimalRoute\<close> up to its first \<open>await\<close>: the route is cleared, the stops are
  ordered and the request is sent.
\<close>

definition start1 :: "coord list \<Rightarrow> bool \<Rightarrow> route_line \<Rightarrow> route_line" where
  "start1 coords optimizeRoute s =
     (let s1 = clearRoute s
      in case (if optimizeRoute then orderRoute coords else Inr coords) of
           Inl e \<Rightarrow> final_state (catch1 coords s1)
         | Inr ordered \<Rightarrow> s1\<lparr>requests := requests s1 @ [ordered]\<rparr>)"

text \<open>The \<open>try\<close> block from the answer on.\<close>

definition try1 :: "bool \<Rightarrow> bool \<Rightarrow> fetch_outcome \<Rightarrow> route_line \<Rightarrow> completion" where
  "try1 plugin optimizeRoute outcome s =
     (case outcome of
        NetworkError \<Rightarrow> Inl (NetworkFailure, s)
      | BadJson \<Rightarrow> Inl (SyntaxError, s)
      | Response d \<Rightarrow>
          (if code d = ''Ok''
           then (case first_route d of
                   Some r \<Rightarrow>
                     (case read_geometry r of
                        Inl e \<Rightarrow> Inl (e, s)
                      | Inr routeCoords \<Rightarrow> drawRoute plugin optimizeRoute routeCoords s)
                 | None \<Rightarrow> Inl (route_failed d, s))
           else Inl (route_failed d, s)))"

text \<open>
  \<open>fetchOptimalRoute\<close> from the answer on: the \<open>try\<close> block, and the \<open>catch\<close> block
  in the state that the \<open>try\<close> block has reached when it throws. \<open>Inl\<close> would be an
  error that leaves the function.
\<close>

definition resume1 :: "bool \<Rightarrow> coord list \<Rightarrow> bool \<Rightarrow> fetch_outcome \<Rightarrow> route_line \<Rightarrow> completion" where
  "resume1 plugin coords optimizeRoute outcome s =
     (case try1 plugin optimizeRoute outcome s of
        Inl (e, s') \<Rightarrow> catch1 coords s'
      | Inr s' \<Rightarrow> Inr s')"

text \<open>The state once \<open>fetchOptimalRoute\<close> has ended.\<close>

definition settle1 :: "bool \<Rightarrow> coord list \<Rightarrow> bool \<Rightarrow> fetch_outcome \<Rightarrow> route_line \<Rightarrow> route_line" where
  "settle1 plugin coords optimizeRoute outcome s =
     final_state (resume1 plugin coords optimizeRoute outcome s)"

text \<open>The effect of the first variant, run when the tickets or the mode change.\<close>

definition effect1 :: "ticket list \<Rightarrow> bool \<Rightarrow> route_line \<Rightarrow> route_line" where
  "effect1 ts optimizeRoute s =
     (let s1 = clearRoute s
      in if length ts < 2 then stopLoading s1
         else if isCalculatingRef s1 then s1
         else start1 (coords_of ts) optimizeRoute
                (s1\<lparr>isCalculatingRef := True, isCalculatingRoutes := True\<rparr>))"

definition cleanup1 :: "route_line \<Rightarrow> route_line" where
  "cleanup1 s = clearRoute (stopLoading s)"

subsection \<open>Second variant\<close>

text \<open>The \<open>catch\<close> block of the second variant bails out when no calculation is live.\<close>

definition catch2 :: "coord list \<Rightarrow> route_line \<Rightarrow> completion" where
  "catch2 coords s = Inr (if \<not> isCalculatingRef s then s else drawFallback coords s)"

definition start2 :: "coord list \<Rightarrow> bool \<Rightarrow> route_line \<Rightarrow> route_line" where
  "start2 coords optimizeRoute s =
     (case (if optimizeRoute then orderRoute coords else Inr coords) of
        Inl e \<Rightarrow> final_state (catch2 coords s)
      | Inr ordered \<Rightarrow> s\<lparr>requests := requests s @ [ordered]\<rparr>)"

text \<open>
  In the \<open>try\<close> block of the second variant an answer with a route returns at once when
  no calculation is live.
\<close>

definition try2 :: "bool \<Rightarrow> bool \<Rightarrow> fetch_outcome \<Rightarrow> route_line \<Rightarrow> completion" where
  "try2 plugin optimizeRoute outcome s =
     (case outcome of
        NetworkError \<Rightarrow> Inl (NetworkFailure, s)
      | BadJson \<Rightarrow> Inl (SyntaxError, s)
      | Response d \<Rightarrow>
          (if code d = ''Ok''
           then (case first_route d of
                   Some r \<Rightarrow>
                     (if \<not> isCalculatingRef s then Inr s
                      else (case read_geometry r of
                              Inl e \<Rightarrow> Inl (e, s)
                            | Inr routeCoords \<Rightarrow> drawRoute plugin optimizeRoute routeCoords s))
                 | None \<Rightarrow> Inl (route_failed d, s))
           else Inl (route_failed d, s)))"

definition resume2 :: "bool \<Rightarrow> coord list \<Rightarrow> bool \<Rightarrow> fetch_outcome \<Rightarrow> route_line \<Rightarrow> completion" where
  "resume2 plugin coords optimizeRoute outcome s =
     (case try2 plugin optimizeRoute outcome s of
        Inl (e, s') \<Rightarrow> catch2 coords s'
      | Inr s' \<Rightarrow> Inr s')"

definition settle2 :: "bool \<Rightarrow> coord list \<Rightarrow> bool \<Rightarrow> fetch_outcome \<Rightarrow> route_line \<Rightarrow> route_line" where
  "settle2 plugin coords optimizeRoute outcome s =
     final_state (resume2 plugin coords optimizeRoute outcome s)"

definition effect2 :: "ticket list \<Rightarrow> bool \<Rightarrow> route_line \<Rightarrow> route_line" where
  "effect2 ts optimizeRoute s =
     (if length ts < 2 then stopLoading (clearRouteLayers s)
      else start2 (coords_of ts) optimizeRoute
             (s\<lparr>isCalculatingRef := True, isCalculatingRoutes := True\<rparr>))"

definition cleanup2 :: "route_line \<Rightarrow> route_line" where
  "cleanup2 s = clearRouteLayers (stopLoading s)"

text \<open>The 15 second timer of both variants runs \<open>stopLoading\<close>.\<close>

definition timeout :: "route_line \<Rightarrow> route_line" where
  "timeout s = stopLoading s"

section \<open>Notions used in the proofs and in the examples\<close>

text \<open>
  What the scan knows after the elements \<open>pre\<close>: nothing yet, or the index of the first
  element of \<open>pre\<close> at the least distance from \<open>l\<close>, and that distance.
\<close>

definition scan_inv :: "coord \<Rightarrow> coord list \<Rightarrow> nat \<times> real option \<Rightarrow> bool" where
  "scan_inv l pre acc =
     (case acc of (n, m) \<Rightarrow>
        (pre = [] \<and> n = 0 \<and> m = None) \<or>
        (n < length pre \<and> m = distance (pre ! n) l \<and>
         (\<forall>j<length pre. \<not> below (distance (pre ! j) l) m) \<and>
         (\<forall>j<n. below m (distance (pre ! j) l))))"

text \<open>
  \<open>greedy l ps u\<close>: the stops \<open>ps\<close> are \<open>u\<close> in the order in which each is, among those
  left, the first whose computed distance from the stop before it is the least, starting
  from \<open>l\<close>.
\<close>

fun greedy :: "coord \<Rightarrow> coord list \<Rightarrow> coord list \<Rightarrow> bool" where
  "greedy l [] u = (u = [])"
| "greedy l (p # ps) u =
     (p \<in> set u \<and> (\<forall>q\<in>set u. \<not> below (distance q l) (distance p l)) \<and>
      (\<forall>q\<in>set (takeWhile (\<lambda>q. q \<noteq> p) u). below (distance p l) (distance q l)) \<and>
      greedy p ps (removeAll p u))"

text \<open>The Euclidean distance of two points in degrees, as a real number.\<close>

definition euclidean :: "coord \<Rightarrow> coord \<Rightarrow> real" where
  "euclidean c l = sqrt ((fst c - fst l)\<^sup>2 + (snd c - snd l)\<^sup>2)"

text \<open>A ticket with the given fields, for the examples.\<close>

definition sample ::
  "string \<Rightarrow> status \<Rightarrow> int \<Rightarrow> severity \<Rightarrow> real option \<Rightarrow> real \<Rightarrow> real \<Rightarrow> ticket" where
  "sample i st t sv sc lon lat =
     \<lparr>id_t = i, status = st, created_at = t,
      pothole_metadata = \<lparr>latitude = lat, longitude = lon, severity = sv, image_url = None,
        description = None, severity_score = sc\<rparr>\<rparr>"

text \<open>A successful answer of the routing service with one route through \<open>cs\<close>.\<close>

definition ok_answer :: "coord list \<Rightarrow> fetch_outcome" where
  "ok_answer cs = Response \<lparr>code = ''Ok'', routes = Some [\<lparr>geometry = Some cs\<rparr>], message = None\<rparr>"

text \<open>Two sets of stops, and the runs of the two variants used in the examples.\<close>

definition stops_A :: "ticket list" where
  "stops_A = [sample ''a'' ACTIVE 2 HIGH None 0 0, sample ''b'' ACTIVE 1 HIGH None 1 0]"

definition stops_B :: "ticket list" where
  "stops_B = [sample ''c'' ACTIVE 4 HIGH None 5 5, sample ''d'' ACTIVE 3 HIGH None 6 5]"

text \<open>
  A change of the stops from A to B while the request for A is in flight: React runs the
  cleanup of the effect for A, then the effect for B; the answer for A arrives, then the
  answer for B.
\<close>

definition race1 :: route_line where
  "race1 =
     settle1 True (coords_of stops_B) False (ok_answer (coords_of stops_B))
       (settle1 True (coords_of stops_A) False (ok_answer (coords_of stops_A))
          (effect1 stops_B False (cleanup1 (effect1 stops_A False initial))))"

definition race2 :: route_line where
  "race2 =
     settle2 True (coords_of stops_B) False (ok_answer (coords_of stops_B))
       (settle2 True (coords_of stops_A) False (ok_answer (coords_of stops_A))
          (effect2 stops_B False (cleanup2 (effect2 stops_A False initial))))"

text \<open>Three stops whose nearest-neighbour order differs from their input order.\<close>

definition stops_C :: "ticket list" where
  "stops_C = [sample ''a'' ACTIVE 3 HIGH None 0 0, sample ''b'' ACTIVE 2 HIGH None 10 0,
              sample ''c'' ACTIVE 1 HIGH None 1 0]"

text \<open>A request in the nearest-neighbour mode that ends in a network error.\<close>

definition failed1 :: route_line where
  "failed1 = settle1 True (coords_of stops_C) True NetworkError (effect1 stops_C True initial)"

definition failed2 :: route_line where
  "failed2 = settle2 True (coords_of stops_C) True NetworkError (effect2 stops_C True initial)"

text \<open>
  The same in the second variant when the component is hidden before the request ends:
  the cleanup has run and no effect has run since.
\<close>

definition failed_hidden2 :: route_line where
  "failed_hidden2 =
     settle2 True (coords_of stops_C) True NetworkError (cleanup2 (effect2 stops_C True initial))"

text \<open>
  The active tickets drop from the two stops A to one while the request for A is in
  flight, and the answer arrives afterwards.
\<close>

definition late1 :: route_line where
  "late1 =
     settle1 True (coords_of stops_A) False (ok_answer (coords_of stops_A))
       (effect1 [sample ''a'' ACTIVE 2 HIGH None 0 0] False
          (cleanup1 (effect1 stops_A False initial)))"

section \<open>The canonical ticket list: auxiliary facts\<close>

lemma selects_fetchTickets: "selects (fetchTickets res s) = Suc (selects s)"
  by (simp add: fetchTickets_def Let_def split: option.splits)

lemma tickets_fetchTickets:
  "tickets (fetchTickets res s) =
     (case error res of Some e \<Rightarrow> tickets s
      | None \<Rightarrow> (case data res of Some d \<Rightarrow> d | None \<Rightarrow> tickets s))"
  by (simp add: fetchTickets_def Let_def split: option.splits)

lemma console_fetchTickets:
  "console (fetchTickets res s) =
     console s @ Log ''Refetching tickets...'' #
       (case error res of Some e \<Rightarrow> [Error ''Error fetching tickets:''] | None \<Rightarrow> [])"
  by (simp add: fetchTickets_def Let_def split: option.splits)

section \<open>Sorting with a comparator\<close>

lemma mset_insert_cmp: "mset (insert_cmp cmp x xs) = add_mset x (mset xs)"
  by (induction xs) auto

lemma mset_sort_cmp: "mset (sort_cmp cmp xs) = mset xs"
  by (induction xs) (auto simp: sort_cmp_def mset_insert_cmp)

lemma set_insert_cmp: "set (insert_cmp cmp x xs) = insert x (set xs)"
  by (induction xs) auto

lemma sort_cmp_Cons: "sort_cmp cmp (x # xs) = insert_cmp cmp x (sort_cmp cmp xs)"
  by (simp add: sort_cmp_def)

lemma sort_cmp_Nil: "sort_cmp cmp [] = []"
  by (simp add: sort_cmp_def)

lemma sorted_insert_cmp:
  assumes tr: "\<And>a b c. cmp a b \<le> 0 \<Longrightarrow> cmp b c \<le> 0 \<Longrightarrow> cmp a c \<le> 0"
    and tot: "\<And>a b. cmp a b \<le> 0 \<or> cmp b a \<le> 0"
  shows "sorted_wrt (\<lambda>a b. cmp a b \<le> 0) xs \<Longrightarrow> sorted_wrt (\<lambda>a b. cmp a b \<le> 0) (insert_cmp cmp x xs)"
proof (induction xs)
  case Nil
  then show ?case by simp
next
  case (Cons y ys)
  show ?case
  proof (cases "cmp x y \<le> 0")
    case True
    have "cmp x z \<le> 0" if "z \<in> set ys" for z
      using Cons.prems that True tr by auto
    with True Cons.prems show ?thesis by auto
  next
    case False
    then have yx: "cmp y x \<le> 0" using tot by blast
    from False Cons show ?thesis
      by (auto simp: set_insert_cmp yx)
  qed
qed

lemma sorted_sort_cmp:
  assumes tr: "\<And>a b c. cmp a b \<le> 0 \<Longrightarrow> cmp b c \<le> 0 \<Longrightarrow> cmp a c \<le> 0"
    and tot: "\<And>a b. cmp a b \<le> 0 \<or> cmp b a \<le> 0"
  shows "sorted_wrt (\<lambda>a b. cmp a b \<le> 0) (sort_cmp cmp xs)"
proof (induction xs)
  case Nil
  show ?case by (simp add: sort_cmp_Nil)
next
  case (Cons x xs)
  then show ?case
    using sorted_insert_cmp [of cmp "sort_cmp cmp xs" x] tr tot
    by (simp add: sort_cmp_Cons)
qed

lemma filter_insert_cmp:
  assumes "\<And>y. P x \<Longrightarrow> P y \<Longrightarrow> cmp x y \<le> 0"
  shows "filter P (insert_cmp cmp x ys) = (if P x then x # filter P ys else filter P ys)"
  using assms by (induction ys) auto

lemma filter_sort_cmp:
  assumes "\<And>x y. P x \<Longrightarrow> P y \<Longrightarrow> cmp x y \<le> 0"
  shows "filter P (sort_cmp cmp xs) = filter P xs"
  using assms by (induction xs) (simp_all add: sort_cmp_Nil sort_cmp_Cons filter_insert_cmp)

lemma insert_cmp_map:
  assumes "\<And>a b. cmp (g a) (g b) = cmp a b"
  shows "insert_cmp cmp (g x) (map g ys) = map g (insert_cmp cmp x ys)"
  using assms by (induction ys) auto

lemma sort_cmp_map:
  assumes "\<And>a b. cmp (g a) (g b) = cmp a b"
  shows "sort_cmp cmp (map g xs) = map g (sort_cmp cmp xs)"
  using assms by (induction xs) (simp_all add: sort_cmp_Nil sort_cmp_Cons insert_cmp_map)

lemma activeCompare_le:
  "activeCompare a b \<le> 0 \<longleftrightarrow>
     severityWeights (severity (pothole_metadata b)) < severityWeights (severity (pothole_metadata a))
     \<or> (severityWeights (severity (pothole_metadata b)) = severityWeights (severity (pothole_metadata a))
        \<and> created_at b \<le> created_at a)"
  by (auto simp: activeCompare_def Let_def)

lemma severityWeights_inj: "severityWeights a = severityWeights b \<longleftrightarrow> a = b"
  by (cases a; cases b) auto

lemma sorted_activeTickets:
  "sorted_wrt (\<lambda>a b. activeCompare a b \<le> 0) (activeTickets ts)"
  unfolding activeTickets_def
  by (rule sorted_sort_cmp) (auto simp: activeCompare_le)

lemma mset_activeTickets: "mset (activeTickets ts) = mset (filter (\<lambda>t. status t = ACTIVE) ts)"
  by (simp add: activeTickets_def mset_sort_cmp)

lemma stable_activeTickets:
  "filter (\<lambda>t. severity (pothole_metadata t) = sv \<and> created_at t = c) (activeTickets ts)
   = filter (\<lambda>t. severity (pothole_metadata t) = sv \<and> created_at t = c) (filter (\<lambda>t. status t = ACTIVE) ts)"
  unfolding activeTickets_def
  by (rule filter_sort_cmp) (simp add: activeCompare_le)

lemma example_activeTickets:
  assumes "status a = ACTIVE" "status b = ACTIVE" "status c = ACTIVE"
   "severity (pothole_metadata a) = LOW" "severity (pothole_metadata b) = HIGH" "severity (pothole_metadata c) = HIGH"
   "created_at b < created_at c"
  shows "activeTickets [a, b, c] = [c, b, a]"
  using assms by (simp add: activeTickets_def sort_cmp_Cons sort_cmp_Nil activeCompare_le)

lemma panelCompare_le: "panelCompare a b \<le> 0 \<longleftrightarrow> score b \<le> score a"
  by (simp add: panelCompare_def)

lemma sorted_sorted_panel: "sorted_wrt (\<lambda>a b. score b \<le> score a) (sorted_panel ts)"
proof -
  have "sorted_wrt (\<lambda>a b. panelCompare a b \<le> 0) (sort_cmp panelCompare ts)"
    by (rule sorted_sort_cmp) (auto simp: panelCompare_le)
  then show ?thesis by (simp add: sorted_panel_def panelCompare_le)
qed

lemma stable_sorted_panel:
  "filter (\<lambda>t. score t = v) (sorted_panel ts) = filter (\<lambda>t. score t = v) ts"
  unfolding sorted_panel_def
  by (rule filter_sort_cmp) (simp add: panelCompare_le)

lemma sorted_panel_map:
  "(\<And>t. score (g t) = score t) \<Longrightarrow> sorted_panel (map g ts) = map g (sorted_panel ts)"
  unfolding sorted_panel_def
  by (rule sort_cmp_map) (simp add: panelCompare_def)

lemma length_sorted_panel: "length (sorted_panel ts) = length ts"
  by (metis sorted_panel_def mset_sort_cmp mset_eq_length)

lemma score_absent: "score t = 0" if "severity_score (pothole_metadata t) = None" for t
    using that by (simp add: score_def)

lemma sorted_panel_other_fields: "sorted_panel (map g ts) = map g (sorted_panel ts)"
    if "\<forall>t. severity_score (pothole_metadata (g t)) = severity_score (pothole_metadata t)" for g
    by (rule sorted_panel_map) (simp add: score_def that)

lemma sorted_panel_sink: "j < i"
    if "i < length ts" "j < length ts"
      "severity_score (pothole_metadata (sorted_panel ts ! i)) = None"
      "0 < score (sorted_panel ts ! j)" for i j
proof (rule ccontr)
  assume "\<not> j < i"
  moreover have "i \<noteq> j" using that(3,4) score_absent by fastforce
  ultimately have "i < j" by simp
  then have "score (sorted_panel ts ! j) \<le> score (sorted_panel ts ! i)"
    using sorted_sorted_panel [of ts] that(2) length_sorted_panel [of ts] by (simp add: sorted_wrt_iff_nth_less)
  with that(3,4) score_absent [of "sorted_panel ts ! i"] show False by simp
qed

lemma panel_differs_from_map: "\<exists>us. (\<forall>t\<in>set us. status t = ACTIVE) \<and> sorted_panel us \<noteq> activeTickets us"
proof -
  let ?us = "[sample ''a'' ACTIVE 1 LOW (Some 9) 0 0, sample ''b'' ACTIVE 2 HIGH None 1 1]"
  have a: "\<forall>t\<in>set ?us. status t = ACTIVE" by (simp add: sample_def)
  have p: "sorted_panel ?us = ?us"
    by (simp add: sorted_panel_def sort_cmp_Cons sort_cmp_Nil panelCompare_le score_def sample_def)
  have m: "activeTickets ?us = rev ?us"
    by (simp add: activeTickets_def sort_cmp_Cons sort_cmp_Nil activeCompare_le sample_def)
  have "?us \<noteq> rev ?us" by (simp add: sample_def)
  with a p m show ?thesis by metis
qed

section \<open>The nearest-neighbour loop\<close>

lemma below_irrefl: "\<not> below a a"
  by (cases a) auto

lemma below_trans: "below a b \<Longrightarrow> below b c \<Longrightarrow> below a c"
  by (cases a; cases b; cases c) auto

lemma below_not_below: "below a b \<Longrightarrow> \<not> below c b \<Longrightarrow> below a c"
  by (cases a; cases b; cases c) auto

lemma scan_inv_step:
  assumes "scan_inv l pre (n, m)"
  shows "scan_inv l (pre @ [c])
           (if below (distance c l) m then (length pre, distance c l) else (n, m))"
proof (cases "pre = []")
  case True
  with assms have "n = 0" "m = None" by (auto simp: scan_inv_def)
  with True show ?thesis
    by (cases "distance c l") (auto simp: scan_inv_def)
next
  case False
  with assms have n: "n < length pre" and m: "m = distance (pre ! n) l"
    and mn: "\<forall>j<length pre. \<not> below (distance (pre ! j) l) m"
    and fs: "\<forall>j<n. below m (distance (pre ! j) l)"
    by (auto simp: scan_inv_def)
  show ?thesis
  proof (cases "below (distance c l) m")
    case True
    have a: "\<not> below (distance (pre ! j) l) (distance c l)" if "j < length pre" for j
      using mn that True below_trans by blast
    have b: "below (distance c l) (distance (pre ! j) l)" if "j < length pre" for j
      using mn that True below_not_below by blast
    show ?thesis using True a b
      by (auto simp: scan_inv_def nth_append less_Suc_eq below_irrefl)
  next
    case F: False
    then show ?thesis using m n mn fs
      by (auto simp: scan_inv_def nth_append less_Suc_eq)
  qed
qed

lemma forEach_scan_inv:
  "scan_inv l pre acc \<Longrightarrow> idx = length pre \<Longrightarrow> scan_inv l (pre @ cs) (forEach_scan l cs idx acc)"
proof (induction cs arbitrary: pre acc idx)
  case Nil
  then show ?case by simp
next
  case (Cons c cs)
  obtain n m where acc: "acc = (n, m)" by (cases acc)
  let ?acc' = "if below (distance c l) m then (length pre, distance c l) else (n, m)"
  have step: "scan_inv l (pre @ [c]) ?acc'"
    using scan_inv_step Cons.prems(1) acc by blast
  have "scan_inv l ((pre @ [c]) @ cs) (forEach_scan l cs (Suc idx) ?acc')"
    by (rule Cons.IH [OF step]) (simp add: Cons.prems)
  moreover have "forEach_scan l (c # cs) idx acc = forEach_scan l cs (Suc idx) ?acc'"
    using acc Cons.prems(2) by (simp add: Let_def)
  ultimately show ?case by simp
qed

lemma nearestIdx_of_spec:
  assumes "u \<noteq> []"
  shows "nearestIdx_of l u < length u"
    and "\<forall>j<length u. \<not> below (distance (u ! j) l) (distance (u ! nearestIdx_of l u) l)"
    and "\<forall>j<nearestIdx_of l u. below (distance (u ! nearestIdx_of l u) l) (distance (u ! j) l)"
proof -
  have "scan_inv l [] (0, None)" by (simp add: scan_inv_def)
  then have "scan_inv l ([] @ u) (forEach_scan l u 0 (0, None))"
    by (rule forEach_scan_inv) simp
  then have inv: "scan_inv l u (forEach_scan l u 0 (0, None))" by simp
  obtain n m where nm: "forEach_scan l u 0 (0, None) = (n, m)" by (cases "forEach_scan l u 0 (0, None)")
  have n: "nearestIdx_of l u = n" by (simp add: nearestIdx_of_def nm)
  from inv assms show "nearestIdx_of l u < length u"
    and "\<forall>j<length u. \<not> below (distance (u ! j) l) (distance (u ! nearestIdx_of l u) l)"
    and "\<forall>j<nearestIdx_of l u. below (distance (u ! nearestIdx_of l u) l) (distance (u ! j) l)"
    unfolding n by (auto simp: scan_inv_def nm)
qed

lemma takeWhile_until: "x \<notin> set A \<Longrightarrow> takeWhile (\<lambda>q. q \<noteq> x) (A @ x # B) = A"
  by (induction A) auto

lemma splice_distinct:
  assumes "distinct u" "i < length u"
  shows "take i u @ drop (Suc i) u = removeAll (u ! i) u"
    and "takeWhile (\<lambda>q. q \<noteq> u ! i) u = take i u"
proof -
  have dec: "u = take i u @ u ! i # drop (Suc i) u"
    using assms(2) by (rule id_take_nth_drop)
  have "distinct (take i u @ u ! i # drop (Suc i) u)"
    using assms(1) dec by simp
  then have a: "u ! i \<notin> set (take i u)" and b: "u ! i \<notin> set (drop (Suc i) u)"
    by auto
  have "removeAll (u ! i) u = removeAll (u ! i) (take i u @ u ! i # drop (Suc i) u)"
    using dec by simp
  also have "\<dots> = take i u @ drop (Suc i) u"
    using a b by simp
  finally show "take i u @ drop (Suc i) u = removeAll (u ! i) u" by simp
  have "takeWhile (\<lambda>q. q \<noteq> u ! i) u = takeWhile (\<lambda>q. q \<noteq> u ! i) (take i u @ u ! i # drop (Suc i) u)"
    using dec by simp
  also have "\<dots> = take i u"
    using a by (rule takeWhile_until)
  finally show "takeWhile (\<lambda>q. q \<noteq> u ! i) u = take i u" .
qed

lemma nn_loop_greedy:
  "distinct u \<Longrightarrow> \<exists>rest. nn_loop ord u = Inr (ord @ rest) \<and> greedy (last ord) rest u"
proof (induction ord u rule: nn_loop.induct)
  case (1 ord)
  show ?case by simp
next
  case (2 ord c cs)
  let ?u = "c # cs"
  let ?l = "last ord"
  let ?i = "nearestIdx_of ?l ?u"
  let ?p = "?u ! ?i"
  let ?rest = "take ?i ?u @ drop (Suc ?i) ?u"
  have ne: "?u \<noteq> []" by simp
  have i: "?i < length ?u" by (rule nearestIdx_of_spec(1) [OF ne])
  have mn: "\<forall>j<length ?u. \<not> below (distance (?u ! j) ?l) (distance ?p ?l)"
    by (rule nearestIdx_of_spec(2) [OF ne])
  have fs: "\<forall>j<?i. below (distance ?p ?l) (distance (?u ! j) ?l)"
    by (rule nearestIdx_of_spec(3) [OF ne])
  have sp: "splice1 ?i ?u = Some (?p, ?rest)"
    using i by (simp add: splice1_def)
  have rest: "?rest = removeAll ?p ?u" and tw: "takeWhile (\<lambda>q. q \<noteq> ?p) ?u = take ?i ?u"
    using splice_distinct [OF "2.prems" i] by blast+
  have "distinct ?rest" using "2.prems" rest by (simp only: distinct_removeAll)
  from "2.IH" [OF sp refl this]
  obtain r where r: "nn_loop (ord @ [?p]) ?rest = Inr ((ord @ [?p]) @ r)"
    and g: "greedy ?p r ?rest" by auto
  have "nn_loop ord ?u = Inr (ord @ ?p # r)"
    using sp r by simp
  moreover have "greedy ?l (?p # r) ?u"
  proof -
    have "?p \<in> set ?u" using i nth_mem by blast
    moreover have "\<forall>q\<in>set ?u. \<not> below (distance q ?l) (distance ?p ?l)"
      using mn by (metis in_set_conv_nth)
    moreover have "\<forall>q\<in>set (take ?i ?u). below (distance ?p ?l) (distance q ?l)"
    proof
      fix q assume "q \<in> set (take ?i ?u)"
      then obtain j where "j < length (take ?i ?u)" "take ?i ?u ! j = q"
        by (auto simp: in_set_conv_nth)
      then have "j < ?i" "?u ! j = q" by auto
      with fs show "below (distance ?p ?l) (distance q ?l)" by blast
    qed
    ultimately show ?thesis using g rest tw by (simp del: removeAll.simps)
  qed
  ultimately show ?case by blast
qed

lemma greedy_mset: "greedy l ps u \<Longrightarrow> distinct u \<Longrightarrow> mset ps = mset u"
proof (induction ps arbitrary: l u)
  case Nil
  then show ?case by simp
next
  case (Cons p ps)
  then have p: "p \<in> set u" and g: "greedy p ps (removeAll p u)" by auto
  have "mset ps = mset (removeAll p u)"
    using Cons.IH [OF g] Cons.prems(2) by (simp only: distinct_removeAll)
  also have "\<dots> = mset u - {#p#}"
    using Cons.prems(2) by (simp add: distinct_remove1_removeAll [symmetric])
  finally show ?case using p by simp
qed

lemma filter_insert_removeAll:
  "filter (\<lambda>q. q \<noteq> p \<and> q \<notin> S) u = filter (\<lambda>q. q \<notin> S) (removeAll p u)"
  by (induction u) auto

lemma greedy_index:
  "greedy l ps u \<Longrightarrow> distinct u \<Longrightarrow> k < length ps \<Longrightarrow>
   (let U = filter (\<lambda>q. q \<notin> set (take k ps)) u; prev = (l # ps) ! k; p = ps ! k
    in p \<in> set U \<and> (\<forall>q\<in>set U. \<not> below (distance q prev) (distance p prev)) \<and>
       (\<forall>q\<in>set (takeWhile (\<lambda>q. q \<noteq> p) U). below (distance p prev) (distance q prev)))"
proof (induction ps arbitrary: l u k)
  case Nil
  then show ?case by simp
next
  case (Cons p ps)
  show ?case
  proof (cases k)
    case 0
    with Cons.prems(1) show ?thesis by (simp add: Let_def)
  next
    case (Suc k')
    from Cons.prems have g: "greedy p ps (removeAll p u)" and d: "distinct (removeAll p u)"
      and k': "k' < length ps" using Suc by (auto simp only: greedy.simps distinct_removeAll length_Cons Suc_less_eq)
    have "filter (\<lambda>q. q \<notin> set (take k (p # ps))) u = filter (\<lambda>q. q \<notin> set (take k' ps)) (removeAll p u)"
      using Suc by (simp add: filter_insert_removeAll del: removeAll.simps)
    with Cons.IH [OF g d k'] Suc show ?thesis
      by (simp add: Let_def del: removeAll.simps)
  qed
qed

lemma nearestIdx_of_single: "nearestIdx_of l [c] = 0"
  by (simp add: nearestIdx_of_def Let_def)

section \<open>Rounding to double precision\<close>

lemma round_half_even_near:
  assumes "\<bar>y - of_int n\<bar> < 1 / 2"
  shows "round_half_even y = n"
proof (cases "of_int n \<le> y")
  case True
  with assms have "\<lfloor>y\<rfloor> = n" by (intro floor_unique) auto
  with assms True show ?thesis by (simp add: round_half_even_def)
next
  case False
  with assms have "\<lfloor>y\<rfloor> = n - 1" by (intro floor_unique) auto
  with assms False show ?thesis by (simp add: round_half_even_def)
qed

lemma floor_log2:
  fixes x :: real
  assumes "2 powi k \<le> x" and "x < 2 powi (k + 1)"
  shows "\<lfloor>log 2 x\<rfloor> = k"
proof -
  have pos: "0 < x"
    using assms(1) zero_less_power_int [of "2 :: real" k] by linarith
  have a: "2 powr (of_int k) = (2 :: real) powi k" by (simp add: powr_real_of_int')
  have b: "2 powr (of_int (k + 1)) = (2 :: real) powi (k + 1)" by (rule powr_real_of_int') simp_all
  have "2 powr (of_int k) \<le> x \<and> x < 2 powr (of_int k + 1)"
    using assms a b by simp
  then show ?thesis using pos by (simp add: floor_log_eq_powr_iff)
qed

lemma round_double_near:
  fixes x :: real
  assumes k: "- 1022 \<le> k" "k \<le> 1023"
    and x: "2 powi k \<le> \<bar>x\<bar>" "\<bar>x\<bar> < 2 powi (k + 1)"
    and n: "\<bar>n\<bar> \<le> 2 ^ 53 - 1"
    and near: "\<bar>x - of_int n * 2 powi (k - 52)\<bar> < 2 powi (k - 52) / 2"
  shows "round_double x = Some (of_int n * 2 powi (k - 52))"
proof -
  let ?q = "(2 :: real) powi (k - 52)"
  have q: "0 < ?q" by (rule zero_less_power_int) simp
  have e: "\<lfloor>log 2 \<bar>x\<bar>\<rfloor> = k" using x by (rule floor_log2)
  have x0: "x \<noteq> 0"
  proof
    assume "x = 0"
    with x(1) have "(2 :: real) powi k \<le> 0" by simp
    moreover have "0 < (2 :: real) powi k" by (rule zero_less_power_int) simp
    ultimately show False by linarith
  qed
  have eq: "x / ?q - of_int n = (x - of_int n * ?q) / ?q"
    using q by (simp add: field_simps)
  have "\<bar>x / ?q - of_int n\<bar> = \<bar>x - of_int n * ?q\<bar> / ?q"
    by (simp only: eq abs_divide abs_of_pos [OF q])
  also have "\<dots> < 1 / 2" using near q by (simp add: field_simps)
  finally have r: "round_half_even (x / ?q) = n" by (rule round_half_even_near)
  have "\<bar>of_int n * ?q\<bar> = of_int \<bar>n\<bar> * ?q" using q by (simp add: abs_mult)
  also have "\<dots> \<le> (2 ^ 53 - 1) * ?q"
  proof -
    have "(of_int \<bar>n\<bar> :: real) \<le> of_int (2 ^ 53 - 1)" using n by (simp only: of_int_le_iff)
    then show ?thesis using q by (simp add: mult_right_mono)
  qed
  also have "\<dots> < 2 ^ 53 * ?q" using q by simp
  also have "\<dots> = 2 powi (k + 1)"
    by (simp add: power_int_add power_int_diff)
  also have "\<dots> \<le> 2 powi 1024" using k(2) by (intro power_int_increasing) auto
  finally have b: "\<bar>of_int n * ?q\<bar> < 2 powi 1024" .
  show ?thesis
    using e x0 k(1) r b by (simp add: round_double_def Let_def max_def)
qed

lemma rd0: "round_double 0 = Some 0"
  by (simp add: round_double_def)

lemma rd1: "round_double 1 = Some 1"
  using round_double_near [of 0 1 "2 ^ 52"] by simp

lemma rd10: "round_double 10 = Some 10"
  using round_double_near [of 3 10 "10 * 2 ^ 49"] by simp

lemma rd100: "round_double 100 = Some 100"
  using round_double_near [of 6 100 "100 * 2 ^ 46"] by simp

lemma rd_tiny: "round_double (1 + 1 / 2 ^ 60) = Some 1"
  using round_double_near [of 0 "1 + 1 / 2 ^ 60" "2 ^ 52"] by simp

lemma rd_e: "round_double (1 / 2 ^ 30) = Some (1 / 2 ^ 30)"
  using round_double_near [of "-30" "1 / 2 ^ 30" "2 ^ 52"] by simp

lemma rd_e2: "round_double (1 / 2 ^ 60) = Some (1 / 2 ^ 60)"
  using round_double_near [of "-60" "1 / 2 ^ 60" "2 ^ 52"] by simp


lemma sqrt_100: "sqrt 100 = 10"
  by (rule real_sqrt_unique) simp_all

lemma distance_10: "distance (10, 0) (0, 0) = Some 10"
  by (simp add: distance_def number_sub_def Math_pow2_def number_add_def Math_sqrt_def
        rd0 rd10 rd100 sqrt_100)

lemma distance_1: "distance (1, 0) (0, 0) = Some 1"
  by (simp add: distance_def number_sub_def Math_pow2_def number_add_def Math_sqrt_def rd0 rd1)

lemma distance_tie: "distance (1, 1 / 2 ^ 30) (0, 0) = Some 1"
proof -
  have a: "number_sub 1 0 = Some 1" by (simp add: number_sub_def rd1)
  have b: "number_sub (1 / 2 ^ 30) 0 = Some (1 / 2 ^ 30)"
    using rd_e by (simp add: number_sub_def)
  have c: "Math_pow2 (Some 1) = Some 1" by (simp add: Math_pow2_def rd1)
  have d: "Math_pow2 (Some (1 / 2 ^ 30)) = Some (1 / 2 ^ 60)"
    using rd_e2 by (simp add: Math_pow2_def)
  have e: "number_add (Some 1) (Some (1 / 2 ^ 60)) = Some 1"
    using rd_tiny by (simp add: number_add_def)
  have f: "Math_sqrt (Some 1) = Some 1" by (simp add: Math_sqrt_def rd1)
  show ?thesis
    unfolding distance_def fst_conv snd_conv a b c d e f ..
qed

lemma nearestIdx_of_10_1: "nearestIdx_of (0, 0) [(10, 0), (1, 0)] = 1"
  by (simp add: nearestIdx_of_def distance_10 distance_1)

lemma nearestIdx_of_tie: "nearestIdx_of (0, 0) [(1, 1 / 2 ^ 30), (1, 0)] = 0"
  by (simp only: nearestIdx_of_def forEach_scan.simps Let_def distance_tie distance_1
        below.simps if_True if_False less_irrefl fst_conv)

lemma orderRoute_10_1: "orderRoute [(0, 0), (10, 0), (1, 0)] = Inr [(0, 0), (1, 0), (10, 0)]"
  by (simp add: orderRoute_def nearestIdx_of_10_1 nearestIdx_of_single splice1_def)

lemma orderRoute_tie:
  "orderRoute [(0, 0), (1, 1 / 2 ^ 30), (1, 0)] = Inr [(0, 0), (1, 1 / 2 ^ 30), (1, 0)]"
  by (simp add: orderRoute_def nearestIdx_of_tie [simplified] nearestIdx_of_single splice1_def)

lemma euclidean_tie: "euclidean (1, 0) (0, 0) < euclidean (1, 1 / 2 ^ 30) (0, 0)"
  by (simp add: euclidean_def)

section \<open>The route visual: auxiliary facts\<close>

lemmas route_defs = initial_def effect1_def effect2_def cleanup1_def cleanup2_def settle1_def
  settle2_def resume1_def resume2_def try1_def try2_def final_state_def fitBounds_def
  start1_def start2_def catch1_def catch2_def drawRoute_def drawFallback_def addPolyline_def
  addDecorator_def clearRoute_def clearRouteLayers_def removeLayer_def stopLoading_def
  coords_of_def sample_def ok_answer_def first_route_def read_geometry_def swap_pair_def
  route_options_def route_color_def fallback_options_def

lemma resume2_not_live:
  "\<not> isCalculatingRef s \<Longrightarrow> resume2 plugin coords opt outcome s = Inr s"
  by (simp add: resume2_def try2_def catch2_def
        split: fetch_outcome.splits option.splits sum.splits)

lemma settle2_not_live: "\<not> isCalculatingRef s \<Longrightarrow> settle2 plugin coords opt outcome s = s"
  by (simp add: settle2_def resume2_not_live final_state_def)

lemma drawRoute_nonempty:
  assumes "pts \<noteq> []"
  shows "drawRoute plugin opt pts s =
     Inr (stopLoading ((addDecorator plugin opt (addPolyline pts (route_options opt) s))
            \<lparr>fitted := Some pts\<rparr>))"
  using assms by (simp add: drawRoute_def fitBounds_def Let_def)

lemma drawn_fields:
  "routePolylineRef (stopLoading ((addDecorator plugin opt (addPolyline pts (route_options opt) s))
       \<lparr>fitted := Some pts\<rparr>))
     = Some (Polyline (next_id s) pts (route_options opt))"
  "map_layers (stopLoading ((addDecorator plugin opt (addPolyline pts (route_options opt) s))
       \<lparr>fitted := Some pts\<rparr>))
     = map_layers s @ Polyline (next_id s) pts (route_options opt) #
         (if plugin then [Decorator (Suc (next_id s)) (next_id s) (route_color opt)] else [])"
  "\<not> isCalculatingRoutes (stopLoading ((addDecorator plugin opt
       (addPolyline pts (route_options opt) s))\<lparr>fitted := Some pts\<rparr>))"
  by (simp_all add: addPolyline_def addDecorator_def stopLoading_def Let_def)

lemma drawFallback_fields:
  "routePolylineRef (drawFallback coords s)
     = Some (Polyline (next_id s) (map swap_pair coords) fallback_options)"
  "map_layers (drawFallback coords s)
     = map_layers s @ [Polyline (next_id s) (map swap_pair coords) fallback_options]"
  "decoratorRef (drawFallback coords s) = decoratorRef s"
  "\<not> isCalculatingRoutes (drawFallback coords s)"
  "\<not> isCalculatingRef (drawFallback coords s)"
  "requests (drawFallback coords s) = requests s"
  by (simp_all add: drawFallback_def addPolyline_def stopLoading_def Let_def)

lemma resume1_success:
  assumes "code d = ''Ok''" "routes d = Some (r # rs)" "geometry r = Some cs" "cs \<noteq> []"
  shows "resume1 plugin coords opt (Response d) s =
     Inr (stopLoading ((addDecorator plugin opt
            (addPolyline (map swap_pair cs) (route_options opt) s))
            \<lparr>fitted := Some (map swap_pair cs)\<rparr>))"
  using assms
  by (simp add: resume1_def try1_def first_route_def read_geometry_def drawRoute_nonempty)

lemma resume2_success:
  assumes "code d = ''Ok''" "routes d = Some (r # rs)" "geometry r = Some cs" "cs \<noteq> []"
    and "isCalculatingRef s"
  shows "resume2 plugin coords opt (Response d) s =
     Inr (stopLoading ((addDecorator plugin opt
            (addPolyline (map swap_pair cs) (route_options opt) s))
            \<lparr>fitted := Some (map swap_pair cs)\<rparr>))"
  using assms
  by (simp add: resume2_def try2_def first_route_def read_geometry_def drawRoute_nonempty)

lemma resume1_failure:
  assumes "outcome = NetworkError \<or> outcome = BadJson \<or>
     (\<exists>d. outcome = Response d \<and>
        (code d \<noteq> ''Ok'' \<or> first_route d = None \<or> (\<exists>r. first_route d = Some r \<and> geometry r = None)))"
  shows "resume1 plugin coords opt outcome s = Inr (drawFallback coords s)"
  using assms by (auto simp: resume1_def try1_def catch1_def read_geometry_def)

lemma resume2_failure:
  assumes "outcome = NetworkError \<or> outcome = BadJson \<or>
     (\<exists>d. outcome = Response d \<and>
        (code d \<noteq> ''Ok'' \<or> first_route d = None \<or> (\<exists>r. first_route d = Some r \<and> geometry r = None)))"
    and "isCalculatingRef s"
  shows "resume2 plugin coords opt outcome s = Inr (drawFallback coords s)"
  using assms by (auto simp: resume2_def try2_def catch2_def read_geometry_def)

text \<open>
  An answer with an empty geometry: the empty polyline and its decorator are on the map
  when \<open>fitBounds\<close> throws, and the \<open>catch\<close> block draws the fallback over them.
\<close>

lemma resume1_empty_geometry:
  assumes "code d = ''Ok''" "routes d = Some (r # rs)" "geometry r = Some []"
  shows "resume1 plugin coords opt (Response d) s =
     Inr (drawFallback coords (addDecorator plugin opt (addPolyline [] (route_options opt) s)))"
  using assms
  by (simp add: resume1_def try1_def first_route_def read_geometry_def drawRoute_def
        fitBounds_def catch1_def Let_def)

lemma resume2_empty_geometry:
  assumes "code d = ''Ok''" "routes d = Some (r # rs)" "geometry r = Some []"
    and "isCalculatingRef s"
  shows "resume2 plugin coords opt (Response d) s =
     Inr (drawFallback coords (addDecorator plugin opt (addPolyline [] (route_options opt) s)))"
proof -
  have "isCalculatingRef (addDecorator plugin opt (addPolyline [] (route_options opt) s))"
    using assms(4) by (simp add: addDecorator_def addPolyline_def Let_def)
  then show ?thesis
    using assms
    by (simp add: resume2_def try2_def first_route_def read_geometry_def drawRoute_def
          fitBounds_def catch2_def Let_def)
qed

lemma effect1_below_threshold:
  assumes "length ts < 2"
  shows "requests (effect1 ts opt s) = requests s"
    and "\<not> isCalculatingRoutes (effect1 ts opt s)"
    and "\<not> isCalculatingRef (effect1 ts opt s)"
    and "routePolylineRef (effect1 ts opt s) = None"
    and "decoratorRef (effect1 ts opt s) = None"
    and "routePolylineRef s = Some l \<or> decoratorRef s = Some l
           \<Longrightarrow> l \<notin> set (map_layers (effect1 ts opt s))"
  using assms
  by (auto simp: effect1_def clearRoute_def removeLayer_def stopLoading_def Let_def
        split: option.splits)

lemma effect2_below_threshold:
  assumes "length ts < 2"
  shows "requests (effect2 ts opt s) = requests s"
    and "\<not> isCalculatingRoutes (effect2 ts opt s)"
    and "\<not> isCalculatingRef (effect2 ts opt s)"
    and "routePolylineRef (effect2 ts opt s) = None"
    and "decoratorRef (effect2 ts opt s) = None"
    and "routePolylineRef s = Some l \<or> decoratorRef s = Some l
           \<Longrightarrow> l \<notin> set (map_layers (effect2 ts opt s))"
  using assms
  by (auto simp: effect2_def clearRouteLayers_def removeLayer_def stopLoading_def Let_def
        split: option.splits)

lemma timeout_not_live: "\<not> isCalculatingRef s \<Longrightarrow> \<not> isCalculatingRoutes s \<Longrightarrow> timeout s = s"
  by (simp add: timeout_def stopLoading_def)

text \<open>The request that the effect sends for the stops C in the nearest-neighbour mode.\<close>

lemma orderRoute_stops_C: "orderRoute (coords_of stops_C) = Inr [(0, 0), (1, 0), (10, 0)]"
  using orderRoute_10_1 by (simp add: stops_C_def coords_of_def sample_def)

section \<open>Claims about the canonical ticket list\<close>

text \<open>
  C2. For every change-feed event handled by the subscription callback: an INSERT or UPDATE
  event sends one read query, and a successful answer (no error, a list \<open>d\<close>) replaces the
  canonical ticket list by \<open>d\<close>, so the list then has exactly as many tickets as the
  answer; a DELETE event for the id \<open>X\<close> sends no read query and leaves the canonical list
  without every ticket of id \<open>X\<close>, the other tickets unchanged and in their order.
\<close>

theorem change_event_reconciles:
  "(eventType p = INSERT \<or> eventType p = UPDATE \<longrightarrow>
      selects (onChangeEvent p res s) = Suc (selects s) \<and>
      (\<forall>d. error res = None \<and> data res = Some d \<longrightarrow>
         tickets (onChangeEvent p res s) = d \<and>
         length (tickets (onChangeEvent p res s)) = length d))
   \<and> (eventType p = DELETE \<longrightarrow>
      selects (onChangeEvent p res s) = selects s \<and>
      tickets (onChangeEvent p res s) = filter (\<lambda>t. id_t t \<noteq> old_id p) (tickets s) \<and>
      (\<forall>t\<in>set (tickets (onChangeEvent p res s)). id_t t \<noteq> old_id p) \<and>
      (\<forall>t\<in>set (tickets s). id_t t \<noteq> old_id p \<longrightarrow> t \<in> set (tickets (onChangeEvent p res s))))"
  by (auto simp add: onChangeEvent_def Let_def selects_fetchTickets tickets_fetchTickets)

theorem change_event_reconciles_witness:
  "tickets (onChangeEvent \<lparr>eventType = INSERT, old_id = ''''\<rparr>
      \<lparr>data = Some [sample ''a'' ACTIVE 1 LOW None 0 0, sample ''b'' ACTIVE 2 HIGH None 1 1],
       error = None\<rparr>
      \<lparr>tickets = [], console = [], selects = 0\<rparr>)
     = [sample ''a'' ACTIVE 1 LOW None 0 0, sample ''b'' ACTIVE 2 HIGH None 1 1]
   \<and> selects (onChangeEvent \<lparr>eventType = INSERT, old_id = ''''\<rparr>
      \<lparr>data = Some [sample ''a'' ACTIVE 1 LOW None 0 0, sample ''b'' ACTIVE 2 HIGH None 1 1],
       error = None\<rparr>
      \<lparr>tickets = [], console = [], selects = 0\<rparr>) = 1
   \<and> tickets (onChangeEvent \<lparr>eventType = DELETE, old_id = ''a''\<rparr>
      \<lparr>data = None, error = None\<rparr>
      \<lparr>tickets = [sample ''a'' ACTIVE 1 LOW None 0 0, sample ''b'' ACTIVE 2 HIGH None 1 1],
       console = [], selects = 1\<rparr>)
     = [sample ''b'' ACTIVE 2 HIGH None 1 1]
   \<and> selects (onChangeEvent \<lparr>eventType = DELETE, old_id = ''a''\<rparr>
      \<lparr>data = None, error = None\<rparr>
      \<lparr>tickets = [sample ''a'' ACTIVE 1 LOW None 0 0, sample ''b'' ACTIVE 2 HIGH None 1 1],
       console = [], selects = 1\<rparr>) = 1"
  using change_event_reconciles [of "\<lparr>eventType = INSERT, old_id = ''''\<rparr>"
      "\<lparr>data = Some [sample ''a'' ACTIVE 1 LOW None 0 0, sample ''b'' ACTIVE 2 HIGH None 1 1],
        error = None\<rparr>"
      "\<lparr>tickets = [], console = [], selects = 0\<rparr>"]
    change_event_reconciles [of "\<lparr>eventType = DELETE, old_id = ''a''\<rparr>"
      "\<lparr>data = None, error = None\<rparr>"
      "\<lparr>tickets = [sample ''a'' ACTIVE 1 LOW None 0 0, sample ''b'' ACTIVE 2 HIGH None 1 1],
        console = [], selects = 1\<rparr>"]
  by (simp add: sample_def)

text \<open>
  C6. For every state of the canonical ticket list, when the read query of the initial
  load or of a refresh (an INSERT or UPDATE event) answers with an error, the canonical
  list is left as it was: the error is written to the console, exactly one query has been
  sent, none is repeated.
\<close>

theorem failed_load_keeps_list:
  assumes "error res = Some e"
  shows "tickets (fetchTickets res s) = tickets s
     \<and> selects (fetchTickets res s) = Suc (selects s)
     \<and> console (fetchTickets res s)
         = console s @ [Log ''Refetching tickets...'', Error ''Error fetching tickets:'']
     \<and> (eventType p = INSERT \<or> eventType p = UPDATE \<longrightarrow>
          tickets (onChangeEvent p res s) = tickets s
          \<and> selects (onChangeEvent p res s) = Suc (selects s))"
  using assms
  by (simp add: onChangeEvent_def Let_def selects_fetchTickets tickets_fetchTickets
        console_fetchTickets)

theorem failed_load_keeps_list_witness:
  "tickets (fetchTickets \<lparr>data = None, error = Some ''timeout''\<rparr>
      \<lparr>tickets = [sample ''a'' ACTIVE 1 LOW None 0 0], console = [], selects = 3\<rparr>)
     = [sample ''a'' ACTIVE 1 LOW None 0 0]
   \<and> selects (fetchTickets \<lparr>data = None, error = Some ''timeout''\<rparr>
      \<lparr>tickets = [sample ''a'' ACTIVE 1 LOW None 0 0], console = [], selects = 3\<rparr>) = 4
   \<and> tickets (onChangeEvent \<lparr>eventType = UPDATE, old_id = ''a''\<rparr>
      \<lparr>data = None, error = Some ''timeout''\<rparr>
      \<lparr>tickets = [sample ''a'' ACTIVE 1 LOW None 0 0], console = [], selects = 3\<rparr>)
     = [sample ''a'' ACTIVE 1 LOW None 0 0]"
proof -
  have h: "error \<lparr>data = None, error = Some ''timeout''\<rparr> = Some ''timeout''" by simp
  show ?thesis
    using failed_load_keeps_list [OF h,
        of "\<lparr>tickets = [sample ''a'' ACTIVE 1 LOW None 0 0], console = [], selects = 3\<rparr>"
           "\<lparr>eventType = UPDATE, old_id = ''a''\<rparr>"]
    by simp
qed

text \<open>
  C9, as the claim states its failure case: a failed remote update is logged. It is not:
  the console is the same after a failed update.
\<close>

theorem failed_update_not_logged:
  "console (page_updateStatus ''a'' COMPLETE (Some ''denied'')
      \<lparr>tickets = [sample ''a'' ACTIVE 1 LOW None 0 0], console = [], selects = 1\<rparr>) = []"
  by (simp add: page_updateStatus_def updateStatus_def)

text \<open>
  C9, amended. For every status-update attempt on a ticket, the local ticket list is
  updated if and only if the remote update succeeds: on remote failure the page state is
  left unchanged and nothing is logged or shown; on remote success the tickets of the
  targeted id get the new status, and no other field and no other ticket changes.
\<close>

theorem status_update_follows_remote:
  "(err \<noteq> None \<longrightarrow> page_updateStatus i st err s = s)
   \<and> (err = None \<longrightarrow>
        tickets (page_updateStatus i st err s)
          = map (\<lambda>t. if id_t t = i then t\<lparr>status := st\<rparr> else t) (tickets s)
        \<and> length (tickets (page_updateStatus i st err s)) = length (tickets s)
        \<and> (\<forall>k<length (tickets s).
              id_t (tickets (page_updateStatus i st err s) ! k) = id_t (tickets s ! k)
            \<and> created_at (tickets (page_updateStatus i st err s) ! k) = created_at (tickets s ! k)
            \<and> pothole_metadata (tickets (page_updateStatus i st err s) ! k)
                = pothole_metadata (tickets s ! k)
            \<and> status (tickets (page_updateStatus i st err s) ! k)
                = (if id_t (tickets s ! k) = i then st else status (tickets s ! k)))
        \<and> console (page_updateStatus i st err s) = console s
        \<and> selects (page_updateStatus i st err s) = selects s)"
  by (simp add: page_updateStatus_def updateStatus_def handleUpdate_def)

theorem status_update_follows_remote_witness:
  "page_updateStatus ''a'' COMPLETE (Some ''denied'')
      \<lparr>tickets = [sample ''a'' ACTIVE 1 LOW None 0 0, sample ''b'' ACTIVE 2 HIGH None 1 1],
       console = [], selects = 1\<rparr>
     = \<lparr>tickets = [sample ''a'' ACTIVE 1 LOW None 0 0, sample ''b'' ACTIVE 2 HIGH None 1 1],
       console = [], selects = 1\<rparr>
   \<and> tickets (page_updateStatus ''a'' COMPLETE None
      \<lparr>tickets = [sample ''a'' ACTIVE 1 LOW None 0 0, sample ''b'' ACTIVE 2 HIGH None 1 1],
       console = [], selects = 1\<rparr>)
     = [sample ''a'' COMPLETE 1 LOW None 0 0, sample ''b'' ACTIVE 2 HIGH None 1 1]"
  using status_update_follows_remote [of "Some ''denied''" "''a''" COMPLETE
      "\<lparr>tickets = [sample ''a'' ACTIVE 1 LOW None 0 0, sample ''b'' ACTIVE 2 HIGH None 1 1],
        console = [], selects = 1\<rparr>"]
    status_update_follows_remote [of None "''a''" COMPLETE
      "\<lparr>tickets = [sample ''a'' ACTIVE 1 LOW None 0 0, sample ''b'' ACTIVE 2 HIGH None 1 1],
        console = [], selects = 1\<rparr>"]
  by (simp add: sample_def)

section \<open>Claims about the orderings of the ticket list\<close>

text \<open>
  C5. For every input ticket list, the derived active-ticket list contains exactly the
  tickets whose status is ACTIVE (as a multiset), sorted by severity descending
  (HIGH > MEDIUM > LOW) with ties broken by creation timestamp descending, and stably:
  tickets of the same severity and timestamp keep their input order. For example the active
  tickets LOW at t1, HIGH at t2, HIGH at t3 with t3 > t2 come out as HIGH at t3, HIGH at t2,
  LOW at t1.
\<close>

theorem active_tickets_sorted:
  "mset (activeTickets ts) = mset (filter (\<lambda>t. status t = ACTIVE) ts)
   \<and> severityWeights LOW < severityWeights MEDIUM
   \<and> severityWeights MEDIUM < severityWeights HIGH
   \<and> sorted_wrt (\<lambda>a b.
          severityWeights (severity (pothole_metadata b))
            < severityWeights (severity (pothole_metadata a))
          \<or> (severity (pothole_metadata b) = severity (pothole_metadata a)
              \<and> created_at b \<le> created_at a))
        (activeTickets ts)
   \<and> (\<forall>sv c. filter (\<lambda>t. severity (pothole_metadata t) = sv \<and> created_at t = c) (activeTickets ts)
         = filter (\<lambda>t. severity (pothole_metadata t) = sv \<and> created_at t = c)
             (filter (\<lambda>t. status t = ACTIVE) ts))
   \<and> (\<forall>a b c. status a = ACTIVE \<and> status b = ACTIVE \<and> status c = ACTIVE
         \<and> severity (pothole_metadata a) = LOW \<and> severity (pothole_metadata b) = HIGH
         \<and> severity (pothole_metadata c) = HIGH \<and> created_at b < created_at c
         \<longrightarrow> activeTickets [a, b, c] = [c, b, a])"
proof -
  have "sorted_wrt (\<lambda>a b. activeCompare a b \<le> 0) (activeTickets ts)"
    by (rule sorted_activeTickets)
  then have "sorted_wrt (\<lambda>a b.
          severityWeights (severity (pothole_metadata b))
            < severityWeights (severity (pothole_metadata a))
          \<or> (severity (pothole_metadata b) = severity (pothole_metadata a)
              \<and> created_at b \<le> created_at a))
        (activeTickets ts)"
    by (simp add: activeCompare_le severityWeights_inj)
  moreover have "severityWeights LOW < severityWeights MEDIUM"
    and "severityWeights MEDIUM < severityWeights HIGH" by simp_all
  moreover have "\<forall>a b c. status a = ACTIVE \<and> status b = ACTIVE \<and> status c = ACTIVE
         \<and> severity (pothole_metadata a) = LOW \<and> severity (pothole_metadata b) = HIGH
         \<and> severity (pothole_metadata c) = HIGH \<and> created_at b < created_at c
         \<longrightarrow> activeTickets [a, b, c] = [c, b, a]"
    using example_activeTickets by blast
  ultimately show ?thesis
    using mset_activeTickets [of ts] stable_activeTickets [of _ _ ts]
    by blast
qed

theorem active_tickets_sorted_witness:
  "activeTickets [sample ''a'' ACTIVE 1 LOW None 0 0, sample ''b'' ACTIVE 2 HIGH None 1 1,
      sample ''x'' COMPLETE 5 HIGH None 3 3, sample ''c'' ACTIVE 3 HIGH None 2 2]
     = [sample ''c'' ACTIVE 3 HIGH None 2 2, sample ''b'' ACTIVE 2 HIGH None 1 1,
        sample ''a'' ACTIVE 1 LOW None 0 0]
   \<and> activeTickets [sample ''a'' ACTIVE 1 LOW None 0 0, sample ''b'' ACTIVE 2 HIGH None 1 1,
        sample ''c'' ACTIVE 3 HIGH None 2 2]
     = [sample ''c'' ACTIVE 3 HIGH None 2 2, sample ''b'' ACTIVE 2 HIGH None 1 1,
        sample ''a'' ACTIVE 1 LOW None 0 0]"
proof -
  have "activeTickets [sample ''a'' ACTIVE 1 LOW None 0 0, sample ''b'' ACTIVE 2 HIGH None 1 1,
        sample ''c'' ACTIVE 3 HIGH None 2 2]
     = [sample ''c'' ACTIVE 3 HIGH None 2 2, sample ''b'' ACTIVE 2 HIGH None 1 1,
        sample ''a'' ACTIVE 1 LOW None 0 0]"
  proof -
    have "\<forall>a b c. status a = ACTIVE \<and> status b = ACTIVE \<and> status c = ACTIVE
         \<and> severity (pothole_metadata a) = LOW \<and> severity (pothole_metadata b) = HIGH
         \<and> severity (pothole_metadata c) = HIGH \<and> created_at b < created_at c
         \<longrightarrow> activeTickets [a, b, c] = [c, b, a]"
      using active_tickets_sorted [of "[]"] by (elim conjE)
    then have "status (sample ''a'' ACTIVE 1 LOW None 0 0) = ACTIVE
         \<and> status (sample ''b'' ACTIVE 2 HIGH None 1 1) = ACTIVE
         \<and> status (sample ''c'' ACTIVE 3 HIGH None 2 2) = ACTIVE
         \<and> severity (pothole_metadata (sample ''a'' ACTIVE 1 LOW None 0 0)) = LOW
         \<and> severity (pothole_metadata (sample ''b'' ACTIVE 2 HIGH None 1 1)) = HIGH
         \<and> severity (pothole_metadata (sample ''c'' ACTIVE 3 HIGH None 2 2)) = HIGH
         \<and> created_at (sample ''b'' ACTIVE 2 HIGH None 1 1)
             < created_at (sample ''c'' ACTIVE 3 HIGH None 2 2)
         \<longrightarrow> activeTickets [sample ''a'' ACTIVE 1 LOW None 0 0,
               sample ''b'' ACTIVE 2 HIGH None 1 1, sample ''c'' ACTIVE 3 HIGH None 2 2]
             = [sample ''c'' ACTIVE 3 HIGH None 2 2, sample ''b'' ACTIVE 2 HIGH None 1 1,
                sample ''a'' ACTIVE 1 LOW None 0 0]"
      by (elim allE)
    moreover have "status (sample ''a'' ACTIVE 1 LOW None 0 0) = ACTIVE
         \<and> status (sample ''b'' ACTIVE 2 HIGH None 1 1) = ACTIVE
         \<and> status (sample ''c'' ACTIVE 3 HIGH None 2 2) = ACTIVE
         \<and> severity (pothole_metadata (sample ''a'' ACTIVE 1 LOW None 0 0)) = LOW
         \<and> severity (pothole_metadata (sample ''b'' ACTIVE 2 HIGH None 1 1)) = HIGH
         \<and> severity (pothole_metadata (sample ''c'' ACTIVE 3 HIGH None 2 2)) = HIGH
         \<and> created_at (sample ''b'' ACTIVE 2 HIGH None 1 1)
             < created_at (sample ''c'' ACTIVE 3 HIGH None 2 2)"
      by (simp add: sample_def)
    ultimately show ?thesis by (rule mp)
  qed
  moreover have "activeTickets [sample ''a'' ACTIVE 1 LOW None 0 0,
      sample ''b'' ACTIVE 2 HIGH None 1 1, sample ''x'' COMPLETE 5 HIGH None 3 3,
      sample ''c'' ACTIVE 3 HIGH None 2 2]
     = [sample ''c'' ACTIVE 3 HIGH None 2 2, sample ''b'' ACTIVE 2 HIGH None 1 1,
        sample ''a'' ACTIVE 1 LOW None 0 0]"
    by (simp add: activeTickets_def sort_cmp_Cons sort_cmp_Nil activeCompare_le sample_def)
  ultimately show ?thesis by simp
qed

text \<open>
  C10. The ticket list panel orders every input list by \<open>severity_score\<close> descending, an
  absent score counting as 0: the result is a permutation of the input, sorted by score
  descending, stable among equal scores, and it depends on nothing but the scores, since
  changing any other field of the tickets (the severity, the status, the creation time)
  changes the tickets in place and not their order. Hence a ticket without a score comes
  after every ticket with a positive score, and the panel's order can differ from the
  map's: there is a list of ACTIVE tickets that the two order differently.
\<close>

theorem panel_sorted_by_score:
  "mset (sorted_panel ts) = mset ts
   \<and> sorted_wrt (\<lambda>a b. score b \<le> score a) (sorted_panel ts)
   \<and> (\<forall>v. filter (\<lambda>t. score t = v) (sorted_panel ts) = filter (\<lambda>t. score t = v) ts)
   \<and> (\<forall>t. severity_score (pothole_metadata t) = None \<longrightarrow> score t = 0)
   \<and> (\<forall>g. (\<forall>t. severity_score (pothole_metadata (g t)) = severity_score (pothole_metadata t))
         \<longrightarrow> sorted_panel (map g ts) = map g (sorted_panel ts))
   \<and> (\<forall>i j. i < length ts \<and> j < length ts
         \<and> severity_score (pothole_metadata (sorted_panel ts ! i)) = None
         \<and> 0 < score (sorted_panel ts ! j) \<longrightarrow> j < i)
   \<and> (\<exists>us. (\<forall>t\<in>set us. status t = ACTIVE) \<and> sorted_panel us \<noteq> activeTickets us)"
proof (intro conjI allI impI)
  show "mset (sorted_panel ts) = mset ts"
    by (simp add: sorted_panel_def mset_sort_cmp)
  show "sorted_wrt (\<lambda>a b. score b \<le> score a) (sorted_panel ts)"
    by (rule sorted_sorted_panel)
  show "filter (\<lambda>t. score t = v) (sorted_panel ts) = filter (\<lambda>t. score t = v) ts" for v
    by (rule stable_sorted_panel)
  show "score t = 0" if "severity_score (pothole_metadata t) = None" for t
    using that by (rule score_absent)
  show "sorted_panel (map g ts) = map g (sorted_panel ts)"
    if "\<forall>t. severity_score (pothole_metadata (g t)) = severity_score (pothole_metadata t)" for g
    using that by (rule sorted_panel_other_fields)
  show "j < i"
    if "i < length ts \<and> j < length ts
         \<and> severity_score (pothole_metadata (sorted_panel ts ! i)) = None
         \<and> 0 < score (sorted_panel ts ! j)" for i j
    using that sorted_panel_sink [of i ts j] by simp
  show "\<exists>us. (\<forall>t\<in>set us. status t = ACTIVE) \<and> sorted_panel us \<noteq> activeTickets us"
    by (rule panel_differs_from_map)
qed

theorem panel_sorted_by_score_witness:
  "sorted_panel [sample ''a'' COMPLETE 1 HIGH None 0 0, sample ''b'' ACTIVE 2 LOW (Some 4) 1 1,
      sample ''c'' ACTIVE 3 MEDIUM (Some 7) 2 2]
     = [sample ''c'' ACTIVE 3 MEDIUM (Some 7) 2 2, sample ''b'' ACTIVE 2 LOW (Some 4) 1 1,
        sample ''a'' COMPLETE 1 HIGH None 0 0]
   \<and> mset (sorted_panel [sample ''a'' COMPLETE 1 HIGH None 0 0,
        sample ''b'' ACTIVE 2 LOW (Some 4) 1 1, sample ''c'' ACTIVE 3 MEDIUM (Some 7) 2 2])
     = mset [sample ''a'' COMPLETE 1 HIGH None 0 0, sample ''b'' ACTIVE 2 LOW (Some 4) 1 1,
        sample ''c'' ACTIVE 3 MEDIUM (Some 7) 2 2]
   \<and> score (sample ''a'' COMPLETE 1 HIGH None 0 0) = 0"
proof (intro conjI)
  show "sorted_panel [sample ''a'' COMPLETE 1 HIGH None 0 0, sample ''b'' ACTIVE 2 LOW (Some 4) 1 1,
      sample ''c'' ACTIVE 3 MEDIUM (Some 7) 2 2]
     = [sample ''c'' ACTIVE 3 MEDIUM (Some 7) 2 2, sample ''b'' ACTIVE 2 LOW (Some 4) 1 1,
        sample ''a'' COMPLETE 1 HIGH None 0 0]"
    by (simp add: sorted_panel_def sort_cmp_Cons sort_cmp_Nil panelCompare_le score_def sample_def)
  show "mset (sorted_panel [sample ''a'' COMPLETE 1 HIGH None 0 0,
        sample ''b'' ACTIVE 2 LOW (Some 4) 1 1, sample ''c'' ACTIVE 3 MEDIUM (Some 7) 2 2])
     = mset [sample ''a'' COMPLETE 1 HIGH None 0 0, sample ''b'' ACTIVE 2 LOW (Some 4) 1 1,
        sample ''c'' ACTIVE 3 MEDIUM (Some 7) 2 2]"
    using panel_sorted_by_score [of "[sample ''a'' COMPLETE 1 HIGH None 0 0,
      sample ''b'' ACTIVE 2 LOW (Some 4) 1 1, sample ''c'' ACTIVE 3 MEDIUM (Some 7) 2 2]"]
    by (elim conjE)
  have "\<forall>t. severity_score (pothole_metadata t) = None \<longrightarrow> score t = 0"
    using panel_sorted_by_score [of "[]"] by (elim conjE)
  then have "severity_score (pothole_metadata (sample ''a'' COMPLETE 1 HIGH None 0 0)) = None
      \<longrightarrow> score (sample ''a'' COMPLETE 1 HIGH None 0 0) = 0"
    by (elim allE)
  moreover have "severity_score (pothole_metadata (sample ''a'' COMPLETE 1 HIGH None 0 0)) = None"
    by (simp add: sample_def)
  ultimately show "score (sample ''a'' COMPLETE 1 HIGH None 0 0) = 0" by (rule mp)
qed

section \<open>Claims about the order of the stops\<close>

text \<open>
  C1, as the claim states it: each subsequent point is the unvisited point at minimum
  Euclidean distance from the previous one. The code compares the distances as it computes
  them in double precision. From (0,0) the stops \<open>(1, 1 / 2 ^ 30)\<close> and (1,0) are both
  at the computed distance 1, since \<open>1 + 1 / 2 ^ 60\<close> rounds to 1; the tie goes to the
  first, so the route visits \<open>(1, 1 / 2 ^ 30)\<close> before (1,0), which is strictly nearer
  to (0,0).
\<close>

theorem rounded_distance_hides_nearer_stop:
  "distinct [(0, 0), (1, 1 / 2 ^ 30), (1, 0 :: real) :: coord]
   \<and> orderRoute [(0, 0), (1, 1 / 2 ^ 30), (1, 0)] = Inr [(0, 0), (1, 1 / 2 ^ 30), (1, 0)]
   \<and> euclidean (1, 0) (0, 0) < euclidean (1, 1 / 2 ^ 30) (0, 0)
   \<and> distance (1, 0) (0, 0) = distance (1, 1 / 2 ^ 30) (0, 0)"
proof (intro conjI)
  show "distinct [(0, 0), (1, 1 / 2 ^ 30), (1, 0 :: real) :: coord]" by simp
  show "orderRoute [(0, 0), (1, 1 / 2 ^ 30), (1, 0)] = Inr [(0, 0), (1, 1 / 2 ^ 30), (1, 0)]"
    by (rule orderRoute_tie)
  show "euclidean (1, 0) (0, 0) < euclidean (1, 1 / 2 ^ 30) (0, 0)"
    by (rule euclidean_tie)
  show "distance (1, 0) (0, 0) = distance (1, 1 / 2 ^ 30) (0, 0)"
    by (simp only: distance_1 distance_tie)
qed

text \<open>
  C1, amended. For every non-empty list of distinct stops (so for every list of at least 2),
  the nearest-neighbour ordering of the \<open>optimizeRoute\<close> mode returns a list, which is a
  permutation of the input and starts with the first input point; each later point is, among
  the points not yet in the route (\<open>U\<close>, in input order), one whose distance from the
  point before it, as the code computes it in double precision in raw degree space, is the
  least: no point of \<open>U\<close> has a computed distance below its own. On a tie of the computed
  distances the first-encountered point wins: every point of \<open>U\<close> before it has a
  strictly greater computed distance. The statement does not depend on how the distance is
  rounded.
\<close>

theorem nearest_neighbour_order:
  assumes ne: "coords \<noteq> []" and di: "distinct coords"
  shows "\<exists>out. orderRoute coords = Inr out \<and> mset out = mset coords \<and> hd out = hd coords \<and>
     (\<forall>k. Suc k < length out \<longrightarrow>
        (let U = filter (\<lambda>q. q \<notin> set (take (Suc k) out)) coords;
             prev = out ! k; p = out ! Suc k
         in p \<in> set U \<and> (\<forall>q\<in>set U. \<not> below (distance q prev) (distance p prev)) \<and>
            (\<forall>q\<in>set (takeWhile (\<lambda>q. q \<noteq> p) U). below (distance p prev) (distance q prev))))"
proof -
  from ne obtain first u where coords: "coords = first # u" by (cases coords) auto
  with di have du: "distinct u" and fu: "first \<notin> set u" by auto
  from nn_loop_greedy [OF du, of "[first]"]
  obtain r where r: "nn_loop [first] u = Inr (first # r)" and g: "greedy first r u" by auto
  let ?out = "first # r"
  have 1: "orderRoute coords = Inr ?out" by (simp add: orderRoute_def coords r)
  have 2: "mset ?out = mset coords" using greedy_mset [OF g du] coords by simp
  have 3: "hd ?out = hd coords" by (simp add: coords)
  have 4: "let U = filter (\<lambda>q. q \<notin> set (take (Suc k) ?out)) coords;
             prev = ?out ! k; p = ?out ! Suc k
         in p \<in> set U \<and> (\<forall>q\<in>set U. \<not> below (distance q prev) (distance p prev)) \<and>
            (\<forall>q\<in>set (takeWhile (\<lambda>q. q \<noteq> p) U). below (distance p prev) (distance q prev))"
    if "Suc k < length ?out" for k
  proof -
    from that have k: "k < length r" by simp
    have "filter (\<lambda>q. q \<notin> set (take (Suc k) ?out)) coords = filter (\<lambda>q. q \<notin> set (take k r)) u"
      using fu by (auto simp: coords intro: filter_cong)
    with greedy_index [OF g du k] show ?thesis by (simp add: Let_def)
  qed
  from 1 2 3 4 show ?thesis by blast
qed

theorem nearest_neighbour_order_witness:
  "[(0, 0), (10, 0), (1, 0)] \<noteq> ([] :: coord list)
   \<and> distinct [(0, 0), (10, 0), (1, 0 :: real) :: coord]
   \<and> orderRoute [(0, 0), (10, 0), (1, 0)] = Inr [(0, 0), (1, 0), (10, 0)]
   \<and> (\<exists>out. orderRoute [(0, 0), (10, 0), (1, 0)] = Inr out
         \<and> mset out = mset [(0, 0), (10, 0), (1, 0)])"
proof -
  have ne: "[(0, 0), (10, 0), (1, 0)] \<noteq> ([] :: coord list)" by simp
  have di: "distinct [(0, 0), (10, 0), (1, 0 :: real) :: coord]" by simp
  have a: "orderRoute [(0, 0), (10, 0), (1, 0)] = Inr [(0, 0), (1, 0), (10, 0)]"
    by (rule orderRoute_10_1)
  from nearest_neighbour_order [OF ne di]
  have "\<exists>out. orderRoute [(0, 0), (10, 0), (1, 0)] = Inr out
         \<and> mset out = mset [(0, 0), (10, 0), (1, 0)]"
    by blast
  with ne di a show ?thesis by blast
qed

section \<open>Claims about the route visual\<close>

text \<open>
  C3, as the claim states it: whenever the fetch fails, the fallback polyline is drawn, and
  in the nearest-neighbour mode it connects the points in the order passed to the fetch.
  For the stops (0,0), (10,0), (1,0) the request carries the nearest-neighbour order (0,0),
  (1,0), (10,0); when the fetch fails, both variants draw the fallback through the stops in
  their input order. And in the second variant a failure that arrives after the cleanup of
  the effect has run, with no effect run since, draws nothing.
\<close>

theorem fallback_ignores_request_order:
  "requests (effect1 stops_C True initial) = [[(0, 0), (1, 0), (10, 0)]]
   \<and> requests (effect2 stops_C True initial) = [[(0, 0), (1, 0), (10, 0)]]
   \<and> routePolylineRef failed1 = Some (Polyline 0 [(0, 0), (0, 10), (0, 1)] fallback_options)
   \<and> routePolylineRef failed2 = Some (Polyline 0 [(0, 0), (0, 10), (0, 1)] fallback_options)
   \<and> routePolylineRef failed1
       \<noteq> Some (Polyline 0 (map swap_pair [(0, 0), (1, 0), (10, 0)]) fallback_options)
   \<and> routePolylineRef failed2
       \<noteq> Some (Polyline 0 (map swap_pair [(0, 0), (1, 0), (10, 0)]) fallback_options)
   \<and> map_layers failed_hidden2 = [] \<and> routePolylineRef failed_hidden2 = None"
  by (simp add: failed1_def failed2_def failed_hidden2_def stops_C_def route_defs
        orderRoute_10_1 Let_def)

text \<open>
  C3, amended. For every input point list and every ordering mode, whenever the route fetch
  fails (network error, malformed response, or service status other than "Ok"), the first
  variant adds one polyline to the map: straight lines through the input points in their
  input order (the order of the active tickets, whatever order the request was sent in),
  each point swapped to (lat, lon), in the grey dashed fallback style; it clears the loading
  indicator and sends no further request. The second variant does the same when the flag
  \<open>isCalculatingRef\<close> is set at the moment the failure is handled, and changes nothing
  when the flag is clear. In both variants the \<open>catch\<close> block completes: no error leaves
  \<open>fetchOptimalRoute\<close>.
\<close>

theorem fetch_failure_draws_fallback:
  assumes "outcome = NetworkError \<or> outcome = BadJson \<or>
     (\<exists>d. outcome = Response d \<and>
        (code d \<noteq> ''Ok'' \<or> first_route d = None
         \<or> (\<exists>r. first_route d = Some r \<and> geometry r = None)))"
  shows "resume1 plugin coords opt outcome s = Inr (settle1 plugin coords opt outcome s)
   \<and> routePolylineRef (settle1 plugin coords opt outcome s)
       = Some (Polyline (next_id s) (map swap_pair coords) fallback_options)
   \<and> map_layers (settle1 plugin coords opt outcome s)
       = map_layers s @ [Polyline (next_id s) (map swap_pair coords) fallback_options]
   \<and> \<not> isCalculatingRoutes (settle1 plugin coords opt outcome s)
   \<and> requests (settle1 plugin coords opt outcome s) = requests s
   \<and> (isCalculatingRef s \<longrightarrow>
        resume2 plugin coords opt outcome s = Inr (settle2 plugin coords opt outcome s)
        \<and> routePolylineRef (settle2 plugin coords opt outcome s)
          = Some (Polyline (next_id s) (map swap_pair coords) fallback_options)
        \<and> map_layers (settle2 plugin coords opt outcome s)
          = map_layers s @ [Polyline (next_id s) (map swap_pair coords) fallback_options]
        \<and> \<not> isCalculatingRoutes (settle2 plugin coords opt outcome s)
        \<and> requests (settle2 plugin coords opt outcome s) = requests s)
   \<and> (\<not> isCalculatingRef s \<longrightarrow>
        resume2 plugin coords opt outcome s = Inr s \<and> settle2 plugin coords opt outcome s = s)
   \<and> dashArray fallback_options = Some ''6 8'' \<and> color fallback_options = ''#4b5563''"
proof -
  have 1: "resume1 plugin coords opt outcome s = Inr (drawFallback coords s)"
    using assms by (rule resume1_failure)
  have 2: "resume2 plugin coords opt outcome s = Inr (drawFallback coords s)"
    if "isCalculatingRef s"
    using assms that by (rule resume2_failure)
  have 3: "resume2 plugin coords opt outcome s = Inr s" if "\<not> isCalculatingRef s"
    using that by (rule resume2_not_live)
  show ?thesis
    using 2 3
    by (simp add: settle1_def settle2_def final_state_def 1 drawFallback_fields
          fallback_options_def)
qed

theorem fetch_failure_draws_fallback_witness:
  "routePolylineRef (settle1 True [(0, 0), (10, 0), (1, 0)] True NetworkError
       (effect1 stops_C True initial))
     = Some (Polyline 0 [(0, 0), (0, 10), (0, 1)] fallback_options)
   \<and> routePolylineRef (settle2 True [(0, 0), (10, 0), (1, 0)] True
       (Response \<lparr>code = ''NoRoute'', routes = None, message = Some ''Impossible route''\<rparr>)
       (effect2 stops_C True initial))
     = Some (Polyline 0 [(0, 0), (0, 10), (0, 1)] fallback_options)"
proof -
  have n: "next_id (effect1 stops_C True initial) = 0" "next_id (effect2 stops_C True initial) = 0"
    and l: "isCalculatingRef (effect2 stops_C True initial)"
    by (simp_all add: stops_C_def route_defs orderRoute_10_1 Let_def)
  have h1: "NetworkError = NetworkError \<or> NetworkError = BadJson \<or>
     (\<exists>d. NetworkError = Response d \<and>
        (code d \<noteq> ''Ok'' \<or> first_route d = None
         \<or> (\<exists>r. first_route d = Some r \<and> geometry r = None)))"
    by simp
  have h2: "Response \<lparr>code = ''NoRoute'', routes = None, message = Some ''Impossible route''\<rparr> = NetworkError
     \<or> Response \<lparr>code = ''NoRoute'', routes = None, message = Some ''Impossible route''\<rparr> = BadJson \<or>
     (\<exists>d. Response \<lparr>code = ''NoRoute'', routes = None, message = Some ''Impossible route''\<rparr> = Response d \<and>
        (code d \<noteq> ''Ok'' \<or> first_route d = None
         \<or> (\<exists>r. first_route d = Some r \<and> geometry r = None)))"
    by simp
  show ?thesis
    using fetch_failure_draws_fallback [OF h1, of True "[(0, 0), (10, 0), (1, 0)]" True
        "effect1 stops_C True initial"]
      fetch_failure_draws_fallback [OF h2, of True "[(0, 0), (10, 0), (1, 0)]" True
        "effect2 stops_C True initial"] n l
    by (simp add: swap_pair_def)
qed

text \<open>
  C7. Given a service response with code "Ok" and a first route whose geometry holds the
  (lon, lat) pairs \<open>cs\<close>, at least one of them, the route polyline that the first variant,
  and the second variant while the flag \<open>isCalculatingRef\<close> is set, put on the map has as
  its points exactly the pairs of \<open>cs\<close> swapped to (lat, lon), in the same order and of
  the same length; it is the polyline that \<open>routePolylineRef\<close> holds when
  \<open>fetchOptimalRoute\<close> has ended. (In the second variant an answer that arrives when the
  flag is clear draws nothing.)
\<close>

theorem ok_response_draws_swapped_geometry:
  assumes "code d = ''Ok''" and "routes d = Some (r # rs)" and "geometry r = Some cs"
    and "cs \<noteq> []"
  shows "routePolylineRef (settle1 plugin coords opt (Response d) s)
       = Some (Polyline (next_id s) (map swap_pair cs) (route_options opt))
   \<and> Polyline (next_id s) (map swap_pair cs) (route_options opt)
       \<in> set (map_layers (settle1 plugin coords opt (Response d) s))
   \<and> (isCalculatingRef s \<longrightarrow>
        routePolylineRef (settle2 plugin coords opt (Response d) s)
          = Some (Polyline (next_id s) (map swap_pair cs) (route_options opt))
        \<and> Polyline (next_id s) (map swap_pair cs) (route_options opt)
          \<in> set (map_layers (settle2 plugin coords opt (Response d) s)))
   \<and> (\<not> isCalculatingRef s \<longrightarrow> settle2 plugin coords opt (Response d) s = s)
   \<and> length (map swap_pair cs) = length cs
   \<and> (\<forall>i<length cs. map swap_pair cs ! i = (snd (cs ! i), fst (cs ! i)))"
proof -
  have 1: "resume1 plugin coords opt (Response d) s =
     Inr (stopLoading ((addDecorator plugin opt
            (addPolyline (map swap_pair cs) (route_options opt) s))
            \<lparr>fitted := Some (map swap_pair cs)\<rparr>))"
    using assms by (rule resume1_success)
  have 2: "resume2 plugin coords opt (Response d) s =
     Inr (stopLoading ((addDecorator plugin opt
            (addPolyline (map swap_pair cs) (route_options opt) s))
            \<lparr>fitted := Some (map swap_pair cs)\<rparr>))"
    if "isCalculatingRef s"
    using assms that by (rule resume2_success)
  have 3: "settle2 plugin coords opt (Response d) s = s" if "\<not> isCalculatingRef s"
    using that by (rule settle2_not_live)
  show ?thesis
    using 2 3
    by (simp add: settle1_def settle2_def final_state_def 1 drawn_fields swap_pair_def)
qed

theorem ok_response_draws_swapped_geometry_witness:
  "routePolylineRef (settle1 True [(0, 0), (1, 0)] False
       (Response \<lparr>code = ''Ok'',
          routes = Some [\<lparr>geometry = Some [(0, 0), (2, 7), (1, 0)]\<rparr>], message = None\<rparr>)
       (effect1 stops_A False initial))
     = Some (Polyline 0 [(0, 0), (7, 2), (0, 1)] (route_options False))
   \<and> routePolylineRef (settle2 True [(0, 0), (1, 0)] False
       (Response \<lparr>code = ''Ok'',
          routes = Some [\<lparr>geometry = Some [(0, 0), (2, 7), (1, 0)]\<rparr>], message = None\<rparr>)
       (effect2 stops_A False initial))
     = Some (Polyline 0 [(0, 0), (7, 2), (0, 1)] (route_options False))"
proof -
  have n: "next_id (effect1 stops_A False initial) = 0" "next_id (effect2 stops_A False initial) = 0"
    and l: "isCalculatingRef (effect2 stops_A False initial)"
    by (simp_all add: stops_A_def route_defs Let_def)
  have h: "code \<lparr>code = ''Ok'',
          routes = Some [\<lparr>geometry = Some [(0, 0), (2, 7), (1, 0 :: real) :: coord]\<rparr>], message = None\<rparr> = ''Ok''"
    "routes \<lparr>code = ''Ok'',
          routes = Some [\<lparr>geometry = Some [(0, 0), (2, 7), (1, 0 :: real) :: coord]\<rparr>], message = None\<rparr>
       = Some (\<lparr>geometry = Some [(0, 0), (2, 7), (1, 0)]\<rparr> # [])"
    "geometry \<lparr>geometry = Some [(0, 0), (2, 7), (1, 0 :: real) :: coord]\<rparr> = Some [(0, 0), (2, 7), (1, 0)]"
    "[(0, 0), (2, 7), (1, 0 :: real) :: coord] \<noteq> []"
    by simp_all
  show ?thesis
    using ok_response_draws_swapped_geometry [OF h, of True "[(0, 0), (1, 0)]" False
        "effect1 stops_A False initial"]
      ok_response_draws_swapped_geometry [OF h, of True "[(0, 0), (1, 0)]" False
        "effect2 stops_A False initial"] n l
    by (simp add: swap_pair_def)
qed

text \<open>
  C4, evaluated. A first calculation for the stops A is in flight when the stops change
  to B: the cleanup of the first effect runs, then the effect for B. The answer for A
  arrives, then the answer for B. In the second variant the map then shows the route for A,
  the earlier trigger, and the answer for B is dropped: the flag that the answer for A
  tests was set again by the effect for B. In the first variant nothing is tested and the
  map shows both routes.
\<close>

theorem stale_route_wins:
  "requests race2 = [coords_of stops_A, coords_of stops_B]
   \<and> map_layers race2
       = [Polyline 0 (map swap_pair (coords_of stops_A)) (route_options False),
          Decorator 1 0 ''#2563eb'']
   \<and> routePolylineRef race2
       = Some (Polyline 0 (map swap_pair (coords_of stops_A)) (route_options False))
   \<and> map_layers race1
       = [Polyline 0 (map swap_pair (coords_of stops_A)) (route_options False),
          Decorator 1 0 ''#2563eb'',
          Polyline 2 (map swap_pair (coords_of stops_B)) (route_options False),
          Decorator 3 2 ''#2563eb'']
   \<and> coords_of stops_A \<noteq> coords_of stops_B"
  by (simp add: race1_def race2_def stops_A_def stops_B_def route_defs Let_def)

text \<open>
  C8, evaluated on the first variant. A calculation for two stops is in flight when the
  active tickets drop to one. The effect for the single ticket starts no calculation and
  leaves the map without route and the loading indicator off; when the answer of the
  earlier request arrives, the first variant draws its route all the same, so a route
  visual is on the map below the threshold of two points.
\<close>

theorem late_answer_draws_below_threshold:
  "map_layers (effect1 [sample ''a'' ACTIVE 2 HIGH None 0 0] False
       (cleanup1 (effect1 stops_A False initial))) = []
   \<and> \<not> isCalculatingRoutes (effect1 [sample ''a'' ACTIVE 2 HIGH None 0 0] False
       (cleanup1 (effect1 stops_A False initial)))
   \<and> requests (effect1 [sample ''a'' ACTIVE 2 HIGH None 0 0] False
       (cleanup1 (effect1 stops_A False initial))) = [coords_of stops_A]
   \<and> map_layers late1
       = [Polyline 0 (map swap_pair (coords_of stops_A)) (route_options False),
          Decorator 1 0 ''#2563eb'']
   \<and> routePolylineRef late1
       = Some (Polyline 0 (map swap_pair (coords_of stops_A)) (route_options False))"
  by (simp add: late1_def stops_A_def route_defs Let_def)

end
